theory Spec2Isabelle
  imports Main "HOL-Library.Word" "HOL-Library.AList" "HOL-Library.Sublist"
begin

section \<open>Values: strings, bytes, JSON\<close>

text \<open>
  The program is \<^verbatim>\<open>main.py\<close>, a FastAPI application. A Python \<^verbatim>\<open>str\<close> is modelled as
  a \<^typ>\<open>string\<close> holding its UTF-8 encoding, so the three non-ASCII signs of the
  diagnostic texts are the byte sequences below. File contents are lists of 8-bit words.
  A Python dict is an association list in insertion order; assigning to a key is
  \<^const>\<open>AList.update\<close>, which keeps the position of a key already present.
\<close>

type_synonym path = string
type_synonym bytes = "8 word list"

datatype json =
    JNull
  | JBool bool
  | JInt int
  | JStr string
  | JList "json list"
  | JObj "(string \<times> json) list"

definition check_mark :: string where
  "check_mark = [CHR 0xE2, CHR 0x9C, CHR 0x85]"

definition cross_mark :: string where
  "cross_mark = [CHR 0xE2, CHR 0x9D, CHR 0x8C]"

definition warning_sign :: string where
  "warning_sign = [CHR 0xE2, CHR 0x9A, CHR 0xA0, CHR 0xEF, CHR 0xB8, CHR 0x8F]"

definition is_continuation :: "char \<Rightarrow> bool" where
  "is_continuation c = ((128::nat) \<le> of_char c \<and> (of_char c :: nat) < 192)"

text \<open>\<^verbatim>\<open>s[:n]\<close> counts code points: the first \<open>n\<close> lead bytes with their continuation bytes.\<close>

fun py_take :: "nat \<Rightarrow> string \<Rightarrow> string" where
  "py_take n [] = []"
| "py_take n (c # cs) =
     (if is_continuation c then c # py_take n cs
      else (case n of 0 \<Rightarrow> [] | Suc m \<Rightarrow> c # py_take m cs))"

text \<open>\<^verbatim>\<open>s.replace(a, b)\<close> for one-character \<open>a\<close> and \<open>b\<close>.\<close>

definition replace :: "char \<Rightarrow> char \<Rightarrow> string \<Rightarrow> string" where
  "replace a b s = map (\<lambda>c. if c = a then b else c) s"

section \<open>The clock\<close>

record datetime =
  year :: nat
  month :: nat
  day :: nat
  hour :: nat
  minute :: nat
  second :: nat
  microsecond :: nat

definition digit_char :: "nat \<Rightarrow> char" where
  "digit_char d = ''0123456789'' ! (d mod 10)"

text \<open>The \<open>w\<close> low decimal digits of \<open>n\<close>, zero-padded: what \<^verbatim>\<open>strftime\<close> prints for a
  field of width \<open>w\<close> (a year from 1000 to 9999, a month, ..., a microsecond count).\<close>

fun zpad :: "nat \<Rightarrow> nat \<Rightarrow> string" where
  "zpad 0 n = []"
| "zpad (Suc w) n = zpad w (n div 10) @ [digit_char n]"

text \<open>\<^verbatim>\<open>dt.strftime("%Y%m%d%H%M%S%f")\<close> and \<^verbatim>\<open>dt.strftime("%Y%m%d")\<close>.\<close>

definition strftime_full :: "datetime \<Rightarrow> string" where
  "strftime_full dt =
     zpad 4 (year dt) @ zpad 2 (month dt) @ zpad 2 (day dt) @ zpad 2 (hour dt)
     @ zpad 2 (minute dt) @ zpad 2 (second dt) @ zpad 6 (microsecond dt)"

definition strftime_date :: "datetime \<Rightarrow> string" where
  "strftime_date dt = zpad 4 (year dt) @ zpad 2 (month dt) @ zpad 2 (day dt)"

section \<open>The file system\<close>

text \<open>
  The world the program runs in: the directories and the regular files (by path, as
  POSIX strings compared byte by byte), the successive readings of
  \<^verbatim>\<open>datetime.utcnow()\<close> with the number of readings taken so far, and the failures the
  environment has in store: the paths the process may not create or open for writing, and,
  per path, the number of bytes after which a write to it runs out of space. Every
  operation that can raise returns an error or a value, with the world it leaves.
  One request is modelled at a time; reading an upload is taken not to fail.
\<close>

record world =
  dirs :: "path set"
  files :: "path \<rightharpoonup> bytes"
  denied :: "path set"
  short_write :: "path \<rightharpoonup> nat"
  now :: "nat \<Rightarrow> datetime"
  ticks :: nat

datatype error =
    FileExistsError path
  | FileNotFoundError path
  | NotADirectoryError path
  | IsADirectoryError path
  | PermissionError path
  | NoSpaceError path

text \<open>\<^verbatim>\<open>str(e)\<close> of an \<^verbatim>\<open>OSError\<close> (the path is printed between quotes).\<close>

fun str_error :: "error \<Rightarrow> string" where
  "str_error (FileExistsError p) = ''[Errno 17] File exists: '' @ [CHR 0x27] @ p @ [CHR 0x27]"
| "str_error (FileNotFoundError p) = ''[Errno 2] No such file or directory: '' @ [CHR 0x27] @ p @ [CHR 0x27]"
| "str_error (NotADirectoryError p) = ''[Errno 20] Not a directory: '' @ [CHR 0x27] @ p @ [CHR 0x27]"
| "str_error (IsADirectoryError p) = ''[Errno 21] Is a directory: '' @ [CHR 0x27] @ p @ [CHR 0x27]"
| "str_error (PermissionError p) = ''[Errno 13] Permission denied: '' @ [CHR 0x27] @ p @ [CHR 0x27]"
| "str_error (NoSpaceError p) = ''[Errno 28] No space left on device''"

text \<open>\<^verbatim>\<open>posixpath.join(a, b)\<close>: an absolute \<open>b\<close> replaces \<open>a\<close>; otherwise \<open>b\<close> is appended,
  after a separator unless \<open>a\<close> is empty or ends with one.\<close>

fun startswith_sep :: "string \<Rightarrow> bool" where
  "startswith_sep [] = False"
| "startswith_sep (c # cs) = (c = CHR ''/'')"

definition endswith_sep :: "string \<Rightarrow> bool" where
  "endswith_sep a = (a \<noteq> [] \<and> last a = CHR ''/'')"

definition path_join :: "path \<Rightarrow> path \<Rightarrow> path" where
  "path_join a b =
     (if startswith_sep b then b
      else if a = [] \<or> endswith_sep a then a @ b
      else a @ ''/'' @ b)"

text \<open>The parent directories of a path: its prefixes that end just before a separator.\<close>

definition ancestors :: "path \<Rightarrow> path list" where
  "ancestors p = map (\<lambda>i. take i p) (filter (\<lambda>i. p ! i = CHR ''/'') [1..<length p])"

text \<open>\<^verbatim>\<open>os.makedirs(p, exist_ok=True)\<close> goes down the path, parents first: a component that
  is a directory is passed; an absent one is made with \<^verbatim>\<open>os.mkdir\<close>, unless that is
  refused; a regular file in the way is an error, \<^verbatim>\<open>FileExistsError\<close> at the last
  component and \<^verbatim>\<open>NotADirectoryError\<close> for the component below it otherwise. The
  directories made before an error stay.\<close>

fun mkdir_chain :: "path list \<Rightarrow> world \<Rightarrow> (error + unit) \<times> world" where
  "mkdir_chain [] w = (Inr (), w)"
| "mkdir_chain (c # cs) w =
     (if c \<in> dirs w then mkdir_chain cs w
      else if files w c \<noteq> None
        then (Inl (case cs of [] \<Rightarrow> FileExistsError c | c' # _ \<Rightarrow> NotADirectoryError c'), w)
      else if c \<in> denied w then (Inl (PermissionError c), w)
      else mkdir_chain cs (w\<lparr>dirs := insert c (dirs w)\<rparr>))"

definition makedirs :: "path \<Rightarrow> world \<Rightarrow> (error + unit) \<times> world" where
  "makedirs p w = mkdir_chain (ancestors p @ [p]) w"

text \<open>\<^verbatim>\<open>posixpath.dirname(p)\<close>: the part up to the last separator, without its trailing
  separators unless it is made of separators only.\<close>

definition dirname :: "path \<Rightarrow> path" where
  "dirname p =
     (let head = rev (dropWhile (\<lambda>c. c \<noteq> CHR ''/'') (rev p))
      in if head \<noteq> [] \<and> \<not> list_all (\<lambda>c. c = CHR ''/'') head
         then rev (dropWhile (\<lambda>c. c = CHR ''/'') (rev head))
         else head)"

text \<open>The directory a path lies in exists: it is the working directory, the root, or a
  directory of the world.\<close>

definition parent_exists :: "world \<Rightarrow> path \<Rightarrow> bool" where
  "parent_exists w p =
     (dirname p = [] \<or> list_all (\<lambda>c. c = CHR ''/'') (dirname p) \<or> dirname p \<in> dirs w)"

text \<open>\<^verbatim>\<open>open(p, "wb")\<close>: creates the file or truncates it, in a directory that exists.\<close>

definition open_wb :: "path \<Rightarrow> world \<Rightarrow> (error + unit) \<times> world" where
  "open_wb p w =
     (if parent_exists w p
      then if p \<in> dirs w then (Inl (IsADirectoryError p), w)
           else if p \<in> denied w then (Inl (PermissionError p), w)
           else (Inr (), w\<lparr>files := (files w)(p \<mapsto> [])\<rparr>)
      else if files w (dirname p) \<noteq> None then (Inl (NotADirectoryError p), w)
      else (Inl (FileNotFoundError p), w))"

text \<open>\<^verbatim>\<open>out.write(data)\<close> and the close of the \<^verbatim>\<open>with\<close> block, on a file just opened.\<close>

definition write_bytes :: "path \<Rightarrow> bytes \<Rightarrow> world \<Rightarrow> (error + unit) \<times> world" where
  "write_bytes p data w =
     (case short_write w p of
        None \<Rightarrow> (Inr (), w\<lparr>files := (files w)(p \<mapsto> data)\<rparr>)
      | Some n \<Rightarrow>
          if n < length data
          then (Inl (NoSpaceError p), w\<lparr>files := (files w)(p \<mapsto> take n data)\<rparr>)
          else (Inr (), w\<lparr>files := (files w)(p \<mapsto> data)\<rparr>))"

text \<open>\<^verbatim>\<open>datetime.utcnow()\<close>: the next reading of the clock.\<close>

definition utcnow :: "world \<Rightarrow> datetime \<times> world" where
  "utcnow w = (now w (ticks w), w\<lparr>ticks := Suc (ticks w)\<rparr>)"

section \<open>The upload persister\<close>

text \<open>An \<^verbatim>\<open>UploadFile\<close>: the client's file name, if any, and the bytes that
  \<^verbatim>\<open>f.file.read()\<close> returns (\<open>file\<close> is a keyword of Isabelle, hence \<open>file_data\<close>).\<close>

record UploadFile =
  filename :: "string option"
  file_data :: bytes

text \<open>\<^verbatim>\<open>UPLOAD_DIR = os.path.join(os.getcwd(), "uploads")\<close>, for the working directory
  \<open>cwd\<close> the module was loaded in.\<close>

definition UPLOAD_DIR :: "path \<Rightarrow> path" where
  "UPLOAD_DIR cwd = path_join cwd ''uploads''"

text \<open>\<^verbatim>\<open>f.filename or "file"\<close>: \<^verbatim>\<open>None\<close> and the empty string are both falsy.\<close>

definition filename_or_file :: "UploadFile \<Rightarrow> string" where
  "filename_or_file f =
     (case filename f of None \<Rightarrow> ''file'' | Some n \<Rightarrow> if n = [] then ''file'' else n)"

definition safe_name :: "UploadFile \<Rightarrow> string" where
  "safe_name f = replace (CHR 0x5C) (CHR ''_'') (replace (CHR ''/'') (CHR ''_'') (filename_or_file f))"

definition out_path :: "path \<Rightarrow> string \<Rightarrow> UploadFile \<Rightarrow> path" where
  "out_path dest_dir ts f = path_join dest_dir (ts @ ''_'' @ safe_name f)"

text \<open>One pass of the loop body (lines 88 to 94): the path written on success.\<close>

definition save_one :: "path \<Rightarrow> UploadFile \<Rightarrow> world \<Rightarrow> (error + path) \<times> world" where
  "save_one dest_dir f w =
     (let (dt, w1) = utcnow w;
          ts = strftime_full dt;
          p = out_path dest_dir ts f
      in case open_wb p w1 of
           (Inl e, w2) \<Rightarrow> (Inl e, w2)
         | (Inr _, w2) \<Rightarrow>
             (case write_bytes p (file_data f) w2 of
                (Inl e, w3) \<Rightarrow> (Inl e, w3)
              | (Inr _, w3) \<Rightarrow> (Inr p, w3)))"

text \<open>The loop \<^verbatim>\<open>for f in files\<close>, with \<^verbatim>\<open>saved_paths\<close> as accumulator; an exception
  leaves the loop at once.\<close>

fun save_loop :: "path \<Rightarrow> UploadFile list \<Rightarrow> path list \<Rightarrow> world \<Rightarrow> (error + path list) \<times> world" where
  "save_loop dest_dir [] saved_paths w = (Inr saved_paths, w)"
| "save_loop dest_dir (f # fs) saved_paths w =
     (case save_one dest_dir f w of
        (Inl e, w') \<Rightarrow> (Inl e, w')
      | (Inr p, w') \<Rightarrow> save_loop dest_dir fs (saved_paths @ [p]) w')"

text \<open>\<^verbatim>\<open>_save_files(files, subdir)\<close> (an Isabelle name cannot start with an underscore).\<close>

definition save_files :: "path \<Rightarrow> UploadFile list \<Rightarrow> string \<Rightarrow> world \<Rightarrow> (error + path list) \<times> world" where
  "save_files cwd fs subdir w =
     (if fs = [] then (Inr [], w)
      else let dest_dir = path_join (UPLOAD_DIR cwd) subdir
           in case makedirs dest_dir w of
                (Inl e, w') \<Rightarrow> (Inl e, w')
              | (Inr _, w') \<Rightarrow> save_loop dest_dir fs [] w')"

section \<open>The submission handlers\<close>

text \<open>What a handler gives back: a raised \<^verbatim>\<open>HTTPException(status_code, detail)\<close> or a
  \<^verbatim>\<open>JSONResponse(content)\<close> with its status code (200 unless stated).\<close>

datatype http =
    HTTPException nat string
  | JSONResponse nat json

text \<open>A file-group parameter: absent (\<^verbatim>\<open>None\<close>), one \<^verbatim>\<open>UploadFile\<close>, or a list of them.\<close>

datatype upload_field = Absent | Single UploadFile | Multiple "UploadFile list"

fun truthy :: "upload_field \<Rightarrow> bool" where
  "truthy Absent = False"
| "truthy (Single u) = True"
| "truthy (Multiple us) = (us \<noteq> [])"

fun as_list :: "upload_field \<Rightarrow> UploadFile list" where
  "as_list Absent = []"
| "as_list (Single u) = [u]"
| "as_list (Multiple us) = us"

definition flatten_uploads :: "upload_field list \<Rightarrow> UploadFile list" where
  "flatten_uploads groups = concat (map as_list (filter truthy groups))"

definition submit_plan ::
  "string \<Rightarrow> int \<Rightarrow> string \<Rightarrow> string \<Rightarrow> int option \<Rightarrow>
   upload_field \<Rightarrow> upload_field \<Rightarrow> upload_field \<Rightarrow> upload_field \<Rightarrow>
   path \<Rightarrow> world \<Rightarrow> http \<times> world" where
  "submit_plan plan max_photos brand email products files_0 files_1 files_2 files_3 cwd w =
     (let all_uploads = flatten_uploads [files_0, files_1, files_2, files_3]
      in if all_uploads = [] then (HTTPException 422 ''Nenhum ficheiro enviado'', w)
         else
           let (dt, w1) = utcnow w;
               subdir = ''plan_'' @ plan @ ''_'' @ strftime_date dt
           in case save_files cwd all_uploads subdir w1 of
                (Inl e, w2) \<Rightarrow> (HTTPException 500 (str_error e), w2)
              | (Inr saved, w2) \<Rightarrow>
                  (JSONResponse 200
                     (JObj [(''ok'', JBool True), (''message'', JStr ''Recebido''),
                            (''data'', JObj
                               [(''plan'', JStr plan),
                                (''max_photos'', JInt max_photos),
                                (''brand'', JStr brand),
                                (''email'', JStr email),
                                (''products'', (case products of None \<Rightarrow> JNull | Some n \<Rightarrow> JInt n)),
                                (''saved_count'', JInt (int (length saved)))])]), w2))"

definition custom_request ::
  "string \<Rightarrow> string \<Rightarrow> string \<Rightarrow> UploadFile option \<Rightarrow> path \<Rightarrow> world \<Rightarrow> http \<times> world" where
  "custom_request description brand email reference cwd w =
     (case (case reference of
              None \<Rightarrow> (Inr [], w)
            | Some r \<Rightarrow> save_files cwd [r] ''custom'' w) of
        (Inl e, w') \<Rightarrow> (HTTPException 500 (str_error e), w')
      | (Inr saved, w') \<Rightarrow>
          (JSONResponse 200
             (JObj [(''ok'', JBool True), (''message'', JStr ''Pedido recebido''),
                    (''data'', JObj
                       [(''description'', JStr description),
                        (''brand'', JStr brand),
                        (''email'', JStr email),
                        (''saved_count'', JInt (int (length saved)))])]), w'))"

section \<open>The diagnostics endpoint\<close>

text \<open>
  The module \<^verbatim>\<open>database\<close> is not part of the program; what importing it and probing its
  handle can do is the endpoint's input: the import raises \<^verbatim>\<open>ImportError\<close>, or another
  exception with its text, or yields \<^verbatim>\<open>db\<close>, which is \<^verbatim>\<open>None\<close> or a handle with or
  without a \<^verbatim>\<open>name\<close> attribute whose \<^verbatim>\<open>list_collection_names()\<close> raises (with a text) or
  returns a list. The environment is a map from variable names to values.
\<close>

datatype handle = Handle "json option" "string + json list"

datatype import_result = ImportError | OtherError string | Imported "handle option"

text \<open>\<^verbatim>\<open>os.getenv(k)\<close> as a condition: true for a variable set to a non-empty string.\<close>

definition getenv_truthy :: "(string \<rightharpoonup> string) \<Rightarrow> string \<Rightarrow> bool" where
  "getenv_truthy env k = (case env k of None \<Rightarrow> False | Some v \<Rightarrow> v \<noteq> [])"

definition initial_response :: "(string \<times> json) list" where
  "initial_response =
     [(''backend'', JStr (check_mark @ '' Running'')),
      (''database'', JStr (cross_mark @ '' Not Available'')),
      (''database_url'', JNull),
      (''database_name'', JNull),
      (''connection_status'', JStr ''Not Connected''),
      (''collections'', JList [])]"

text \<open>The \<^verbatim>\<open>try\<close> block, lines 42 to 65.\<close>

fun probe :: "import_result \<Rightarrow> (string \<times> json) list \<Rightarrow> (string \<times> json) list" where
  "probe ImportError response =
     AList.update ''database''
       (JStr (cross_mark @ '' Database module not found (run enable-database first)'')) response"
| "probe (OtherError e) response =
     AList.update ''database'' (JStr (cross_mark @ '' Error: '' @ py_take 50 e)) response"
| "probe (Imported None) response =
     AList.update ''database'' (JStr (warning_sign @ ''  Available but not initialized'')) response"
| "probe (Imported (Some (Handle name_attr listing))) response =
     (let r1 = AList.update ''database'' (JStr (check_mark @ '' Available'')) response;
          r2 = AList.update ''database_url'' (JStr (check_mark @ '' Configured'')) r1;
          r3 = AList.update ''database_name''
                 (case name_attr of Some n \<Rightarrow> n | None \<Rightarrow> JStr (check_mark @ '' Connected'')) r2;
          r4 = AList.update ''connection_status'' (JStr ''Connected'') r3
      in case listing of
           Inr collections \<Rightarrow>
             AList.update ''database'' (JStr (check_mark @ '' Connected & Working''))
               (AList.update ''collections'' (JList (take 10 collections)) r4)
         | Inl e \<Rightarrow>
             AList.update ''database''
               (JStr (warning_sign @ ''  Connected but Error: '' @ py_take 50 e)) r4)"

definition test_database :: "import_result \<Rightarrow> (string \<rightharpoonup> string) \<Rightarrow> (string \<times> json) list" where
  "test_database imp env =
     (let r = probe imp initial_response;
          r1 = AList.update ''database_url''
                 (JStr (if getenv_truthy env ''DATABASE_URL'' then check_mark @ '' Set''
                        else cross_mark @ '' Not Set'')) r
      in AList.update ''database_name''
           (JStr (if getenv_truthy env ''DATABASE_NAME'' then check_mark @ '' Set''
                  else cross_mark @ '' Not Set'')) r1)"

section \<open>Notions used in the statements\<close>

text \<open>A path can be opened and written in full: it is no directory, it is not refused, and
  the space it can take is enough for the data.\<close>

definition writable :: "world \<Rightarrow> path \<Rightarrow> bytes \<Rightarrow> bool" where
  "writable w p data =
     (p \<notin> dirs w \<and> p \<notin> denied w \<and>
      (case short_write w p of None \<Rightarrow> True | Some n \<Rightarrow> length data \<le> n))"

text \<open>What opening and writing such a path raises instead: the path is a directory, or it
  is refused, or the space runs out during the write.\<close>

definition raised :: "world \<Rightarrow> path \<Rightarrow> error" where
  "raised w p =
     (if p \<in> dirs w then IsADirectoryError p
      else if p \<in> denied w then PermissionError p
      else NoSpaceError p)"

text \<open>The output paths of a batch, for the clock readings \<open>clk t\<close>, \<open>clk (t + 1)\<close>, ...\<close>

fun planned :: "path \<Rightarrow> (nat \<Rightarrow> datetime) \<Rightarrow> nat \<Rightarrow> UploadFile list \<Rightarrow> path list" where
  "planned d clk t [] = []"
| "planned d clk t (f # fs) = out_path d (strftime_full (clk t)) f # planned d clk (Suc t) fs"

text \<open>The output path of item \<open>i\<close> of a batch given to \<^verbatim>\<open>_save_files\<close> in the world \<open>w\<close>: the
  clock reading it gets is the \<open>i\<close>-th after those already consumed.\<close>

definition nth_path :: "path \<Rightarrow> string \<Rightarrow> world \<Rightarrow> UploadFile list \<Rightarrow> nat \<Rightarrow> path" where
  "nth_path cwd subdir w fs i =
     out_path (path_join (UPLOAD_DIR cwd) subdir) (strftime_full (now w (ticks w + i))) (fs ! i)"

text \<open>The separator that \<^const>\<open>path_join\<close> puts after a directory, and what it means for a
  path to name an entry of that directory itself: the directory, the separator, and a
  non-empty rest without a separator.\<close>

definition sep_after :: "path \<Rightarrow> string" where
  "sep_after d = (if d = [] \<or> endswith_sep d then [] else ''/'')"

definition directly_inside :: "path \<Rightarrow> path \<Rightarrow> bool" where
  "directly_inside d p =
     (let pre = d @ sep_after d
      in take (length pre) p = pre \<and> drop (length pre) p \<noteq> [] \<and>
         CHR ''/'' \<notin> set (drop (length pre) p))"

text \<open>Concrete inputs: an instant, a clock that gives the same reading twice, a clock that
  advances by a microsecond per reading, and a world with the upload root in place.\<close>

definition example_time :: datetime where
  "example_time = \<lparr>year = 2024, month = 3, day = 7, hour = 9, minute = 5, second = 1, microsecond = 42\<rparr>"

definition stuck_clock :: "nat \<Rightarrow> datetime" where
  "stuck_clock n = example_time"

definition ticking_clock :: "nat \<Rightarrow> datetime" where
  "ticking_clock n = example_time\<lparr>microsecond := 42 + n\<rparr>"

definition example_world :: "(nat \<Rightarrow> datetime) \<Rightarrow> world" where
  "example_world clk =
     \<lparr>dirs = {''/srv'', ''/srv/uploads''}, files = map_of [], denied = {},
      short_write = map_of [], now = clk, ticks = 0\<rparr>"

text \<open>Three uploads: a photo with given contents, one whose name has separators and parent
  references, one whose name is the empty string.\<close>

definition photo :: "bytes \<Rightarrow> UploadFile" where
  "photo data = \<lparr>filename = Some ''a.png'', file_data = data\<rparr>"

definition nested :: UploadFile where
  "nested = \<lparr>filename = Some (''../x/y'' @ [CHR 0x5C] @ ''z.png''), file_data = [7]\<rparr>"

definition unnamed :: UploadFile where
  "unnamed = \<lparr>filename = Some [], file_data = [9]\<rparr>"

text \<open>Two worlds short of space: in one the second of two successive files cannot take a
  single byte; in the other, where the clock is stuck, the photo's path takes one byte.\<close>

definition full_world :: world where
  "full_world =
     (example_world ticking_clock)
       \<lparr>short_write := map_of [(''/srv/uploads/custom/20240307090501000043_file'', 0)]\<rparr>"

definition cramped_world :: world where
  "cramped_world =
     (example_world stuck_clock)
       \<lparr>short_write := map_of [(''/srv/uploads/custom/20240307090501000042_a.png'', 1)]\<rparr>"

section \<open>The loop, step by step\<close>

lemma parent_exists_cong: "dirs w' = dirs w \<Longrightarrow> parent_exists w' p = parent_exists w p"
  by (simp add: parent_exists_def)

lemma open_wb_ok:
  assumes "parent_exists w p" and "p \<notin> dirs w" and "p \<notin> denied w"
  shows "open_wb p w = (Inr (), w\<lparr>files := (files w)(p \<mapsto> [])\<rparr>)"
  using assms by (simp add: open_wb_def)

lemma open_wb_Inr:
  assumes "open_wb p w = (Inr u, w')"
  shows "parent_exists w p" "p \<notin> dirs w" "p \<notin> denied w"
    "w' = w\<lparr>files := (files w)(p \<mapsto> [])\<rparr>"
  using assms by (auto simp: open_wb_def split: if_splits)

lemma open_wb_Inl:
  assumes "open_wb p w = (Inl e, w')"
  shows "w' = w"
  using assms by (auto simp: open_wb_def split: if_splits)

lemma write_bytes_Inr:
  assumes "write_bytes p data w = (Inr u, w')"
  shows "w' = w\<lparr>files := (files w)(p \<mapsto> data)\<rparr>"
    "case short_write w p of None \<Rightarrow> True | Some n \<Rightarrow> length data \<le> n"
  using assms by (auto simp: write_bytes_def split: option.splits if_splits)

lemma save_one_Inr:
  assumes "save_one d f w = (Inr p, w')"
  shows "p = out_path d (strftime_full (now w (ticks w))) f"
    and "w' = w\<lparr>files := (files w)(p \<mapsto> file_data f), ticks := Suc (ticks w)\<rparr>"
    and "writable w p (file_data f)"
    and "parent_exists w p"
proof -
  let ?p = "out_path d (strftime_full (now w (ticks w))) f"
  let ?w1 = "w\<lparr>ticks := Suc (ticks w)\<rparr>"
  from assms obtain u w2 where o: "open_wb ?p ?w1 = (Inr u, w2)"
    by (auto simp: save_one_def utcnow_def Let_def split: prod.splits sum.splits)
  note oi = open_wb_Inr [OF o]
  from assms o obtain u' where wr: "write_bytes ?p (file_data f) w2 = (Inr u', w')" and p: "p = ?p"
    by (auto simp: save_one_def utcnow_def Let_def split: prod.splits sum.splits)
  note wi = write_bytes_Inr [OF wr]
  show "p = ?p" by (rule p)
  show "w' = w\<lparr>files := (files w)(p \<mapsto> file_data f), ticks := Suc (ticks w)\<rparr>"
    using wi(1) oi(4) p by simp
  show "writable w p (file_data f)"
    using oi(2,3) wi(2) p by (simp add: writable_def oi(4))
  show "parent_exists w p"
    using oi(1) p by (simp add: parent_exists_def)
qed

lemma save_one_writable:
  assumes "writable w (out_path d (strftime_full (now w (ticks w))) f) (file_data f)"
    and "parent_exists w (out_path d (strftime_full (now w (ticks w))) f)"
  shows "save_one d f w = (Inr (out_path d (strftime_full (now w (ticks w))) f),
           w\<lparr>files := (files w)(out_path d (strftime_full (now w (ticks w))) f \<mapsto> file_data f),
              ticks := Suc (ticks w)\<rparr>)"
proof -
  let ?p = "out_path d (strftime_full (now w (ticks w))) f"
  let ?w1 = "w\<lparr>ticks := Suc (ticks w)\<rparr>"
  have "parent_exists ?w1 ?p" using assms(2) by (simp add: parent_exists_def)
  moreover have "?p \<notin> dirs ?w1" "?p \<notin> denied ?w1" using assms(1) by (simp_all add: writable_def)
  ultimately have o: "open_wb ?p ?w1 = (Inr (), ?w1\<lparr>files := (files ?w1)(?p \<mapsto> [])\<rparr>)"
    by (rule open_wb_ok)
  have wr: "write_bytes ?p (file_data f) (?w1\<lparr>files := (files ?w1)(?p \<mapsto> [])\<rparr>) =
      (Inr (), w\<lparr>files := (files w)(?p \<mapsto> file_data f), ticks := Suc (ticks w)\<rparr>)"
    using assms(1) by (auto simp: write_bytes_def writable_def split: option.splits)
  from o wr show ?thesis
    by (simp add: save_one_def utcnow_def Let_def)
qed

text \<open>The error of opening and writing a path that cannot be written in full.\<close>

lemma save_one_unwritable:
  assumes "\<not> writable w (out_path d (strftime_full (now w (ticks w))) f) (file_data f)"
    and "parent_exists w (out_path d (strftime_full (now w (ticks w))) f)"
  shows "\<exists>w'. save_one d f w =
           (Inl (raised w (out_path d (strftime_full (now w (ticks w))) f)), w')"
proof -
  let ?p = "out_path d (strftime_full (now w (ticks w))) f"
  let ?w1 = "w\<lparr>ticks := Suc (ticks w)\<rparr>"
  have pe: "parent_exists ?w1 ?p" using assms(2) by (simp add: parent_exists_def)
  show ?thesis
  proof (cases "?p \<in> dirs w \<or> ?p \<in> denied w")
    case True
    with pe show ?thesis
      by (auto simp: save_one_def utcnow_def Let_def open_wb_def raised_def)
  next
    case False
    with pe have o: "open_wb ?p ?w1 = (Inr (), ?w1\<lparr>files := (files ?w1)(?p \<mapsto> [])\<rparr>)"
      by (intro open_wb_ok) simp_all
    from False assms(1) obtain n where n: "short_write w ?p = Some n" "n < length (file_data f)"
      by (auto simp: writable_def split: option.splits)
    then have "write_bytes ?p (file_data f) (?w1\<lparr>files := (files ?w1)(?p \<mapsto> [])\<rparr>) =
        (Inl (NoSpaceError ?p), w\<lparr>files := (files w)(?p \<mapsto> take n (file_data f)), ticks := Suc (ticks w)\<rparr>)"
      by (simp add: write_bytes_def)
    with o False show ?thesis
      by (auto simp: save_one_def utcnow_def Let_def raised_def)
  qed
qed

lemma save_one_frame:
  assumes "save_one d f w = (r, w')"
  shows "dirs w' = dirs w" "denied w' = denied w" "short_write w' = short_write w"
    "now w' = now w" "ticks w' = Suc (ticks w)"
    "q \<noteq> out_path d (strftime_full (now w (ticks w))) f \<Longrightarrow> files w' q = files w q"
    "files w q \<noteq> None \<Longrightarrow> files w' q \<noteq> None"
  using assms
  by (auto simp: save_one_def utcnow_def open_wb_def write_bytes_def Let_def
           split: if_splits option.splits)

lemma length_planned: "length (planned d clk t fs) = length fs"
  by (induction fs arbitrary: t) simp_all

lemma planned_nth:
  "i < length fs \<Longrightarrow> planned d clk t fs ! i = out_path d (strftime_full (clk (t + i))) (fs ! i)"
proof (induction fs arbitrary: t i)
  case Nil
  then show ?case by simp
next
  case (Cons f fs)
  then show ?case by (cases i) simp_all
qed

lemma map_add_upd_left: "m(p \<mapsto> v) ++ map_of xs = m ++ map_of (xs @ [(p, v)])"
  by (rule ext) (simp add: map_add_def split: option.splits)

lemma save_loop_frame:
  assumes "save_loop d fs saved w = (r, w')"
  shows "dirs w' = dirs w \<and> denied w' = denied w \<and> short_write w' = short_write w \<and>
         now w' = now w"
  using assms
proof (induction fs arbitrary: saved w)
  case Nil
  then show ?case by simp
next
  case (Cons f fs)
  obtain r1 w1 where one: "save_one d f w = (r1, w1)" by (cases "save_one d f w")
  note fr = save_one_frame(1-4) [OF one]
  show ?case
  proof (cases r1)
    case (Inl e)
    with one Cons.prems have "w' = w1" by simp
    with fr show ?thesis by simp
  next
    case (Inr p)
    with one Cons.prems have "save_loop d fs (saved @ [p]) w1 = (r, w')" by simp
    from Cons.IH [OF this] fr show ?thesis by simp
  qed
qed

lemma save_loop_Inr_conj:
  assumes "save_loop d fs saved w = (Inr ps, w')"
  shows "ps = saved @ planned d (now w) (ticks w) fs \<and>
         files w' = files w ++ map_of (rev (zip (planned d (now w) (ticks w) fs) (map file_data fs))) \<and>
         ticks w' = ticks w + length fs \<and>
         list_all2 (writable w) (planned d (now w) (ticks w) fs) (map file_data fs)"
  using assms
proof (induction fs arbitrary: saved w)
  case Nil
  then show ?case by simp
next
  case (Cons f fs)
  let ?p = "out_path d (strftime_full (now w (ticks w))) f"
  let ?qs = "planned d (now w) (Suc (ticks w)) fs"
  from Cons.prems obtain p w1 where
    one0: "save_one d f w = (Inr p, w1)" and rest0: "save_loop d fs (saved @ [p]) w1 = (Inr ps, w')"
    by (auto split: prod.splits sum.splits)
  have p: "p = ?p" by (rule save_one_Inr(1) [OF one0])
  have one: "save_one d f w = (Inr ?p, w1)" using one0 p by simp
  have rest: "save_loop d fs (saved @ [?p]) w1 = (Inr ps, w')" using rest0 p by simp
  have fr: "now w1 = now w" "ticks w1 = Suc (ticks w)"
    using save_one_frame [OF one] by simp_all
  have f1: "files w1 = (files w)(?p \<mapsto> file_data f)"
    using save_one_Inr(2) [OF one] by simp
  have wr: "writable w1 = writable w"
    using save_one_frame(1-3) [OF one] by (simp add: writable_def fun_eq_iff)
  note ih = Cons.IH [OF rest, unfolded fr wr f1]
  have 1: "ps = saved @ planned d (now w) (ticks w) (f # fs)"
    using ih by simp
  have "files w' = (files w)(?p \<mapsto> file_data f) ++ map_of (rev (zip ?qs (map file_data fs)))"
    using ih by blast
  also have "\<dots> = files w ++ map_of (rev (zip ?qs (map file_data fs)) @ [(?p, file_data f)])"
    by (rule map_add_upd_left)
  also have "rev (zip ?qs (map file_data fs)) @ [(?p, file_data f)] =
      rev (zip (planned d (now w) (ticks w) (f # fs)) (map file_data (f # fs)))"
    by simp
  finally have 2: "files w' = files w ++ map_of (rev (zip (planned d (now w) (ticks w) (f # fs)) (map file_data (f # fs))))" .
  have 3: "ticks w' = ticks w + length (f # fs)"
    using ih by simp
  have 4: "list_all2 (writable w) (planned d (now w) (ticks w) (f # fs)) (map file_data (f # fs))"
    using ih save_one_Inr(3) [OF one] by simp
  from 1 2 3 4 show ?case by blast
qed

lemmas save_loop_Inr = save_loop_Inr_conj [THEN conjunct1]
  save_loop_Inr_conj [THEN conjunct2, THEN conjunct1]
  save_loop_Inr_conj [THEN conjunct2, THEN conjunct2, THEN conjunct1]
  save_loop_Inr_conj [THEN conjunct2, THEN conjunct2, THEN conjunct2]

section \<open>Timestamps, output paths and the whole call\<close>

lemma digit_char_in: "digit_char d \<in> set ''0123456789''"
  unfolding digit_char_def by (rule nth_mem) simp

lemma length_zpad: "length (zpad k n) = k"
  by (induction k n rule: zpad.induct) simp_all

lemma set_zpad: "set (zpad k n) \<subseteq> set ''0123456789''"
proof (induction k n rule: zpad.induct)
  case (1 n) show ?case by simp
next
  case (2 k n)
  show ?case using 2 digit_char_in [of n] by simp
qed

lemma length_strftime_full: "length (strftime_full dt) = 20"
  by (simp add: strftime_full_def length_zpad)

lemma set_strftime_full: "set (strftime_full dt) \<subseteq> set ''0123456789''"
  unfolding strftime_full_def using set_zpad by (simp del: set_simps list.set)

lemma slash_notin_strftime_full: "CHR ''/'' \<notin> set (strftime_full dt)"
  using set_strftime_full [of dt] by auto

lemma strftime_full_not_absolute: "\<not> startswith_sep (strftime_full dt @ s)"
proof (cases "strftime_full dt")
  case Nil
  with length_strftime_full [of dt] show ?thesis by simp
next
  case (Cons c cs)
  with slash_notin_strftime_full [of dt] show ?thesis by auto
qed

lemma safe_name_eq:
  "safe_name f = map (\<lambda>c. if c = CHR ''/'' \<or> c = CHR 0x5C then CHR ''_'' else c) (filename_or_file f)"
  by (simp add: safe_name_def replace_def)

lemma safe_name_no_sep: "CHR ''/'' \<notin> set (safe_name f)" "CHR 0x5C \<notin> set (safe_name f)"
  by (auto simp: safe_name_eq)

lemma out_path_eq:
  "out_path d (strftime_full dt) f = d @ sep_after d @ strftime_full dt @ ''_'' @ safe_name f"
  using strftime_full_not_absolute [of dt "''_'' @ safe_name f"]
  by (simp add: out_path_def path_join_def sep_after_def)

lemma directly_inside_out_path: "directly_inside d (out_path d (strftime_full dt) f)"
  using slash_notin_strftime_full [of dt] safe_name_no_sep(1) [of f]
  by (simp add: out_path_eq directly_inside_def Let_def)

lemma out_path_inject:
  assumes "out_path d (strftime_full dt) f = out_path d (strftime_full dt') f'"
  shows "strftime_full dt = strftime_full dt'" and "safe_name f = safe_name f'"
  using assms by (simp_all add: out_path_eq length_strftime_full)

lemma dest_dir_relative:
  "\<not> startswith_sep subdir \<Longrightarrow> path_join (UPLOAD_DIR cwd) subdir = UPLOAD_DIR cwd @ ''/'' @ subdir"
  by (simp add: UPLOAD_DIR_def path_join_def endswith_sep_def)

lemma mkdir_chain_frame:
  assumes "mkdir_chain cs w = (r, w0)"
  shows "files w0 = files w \<and> now w0 = now w \<and> ticks w0 = ticks w \<and>
         denied w0 = denied w \<and> short_write w0 = short_write w \<and> dirs w \<subseteq> dirs w0"
  using assms
proof (induction cs arbitrary: w)
  case Nil
  then show ?case by simp
next
  case (Cons c cs)
  show ?case
  proof (cases "c \<in> dirs w")
    case True
    with Cons.prems have "mkdir_chain cs w = (r, w0)" by simp
    from Cons.IH [OF this] show ?thesis .
  next
    case False
    show ?thesis
    proof (cases "files w c \<noteq> None \<or> c \<in> denied w")
      case True
      with False Cons.prems have "w0 = w" by (auto split: if_splits)
      then show ?thesis by simp
    next
      case stop: False
      with False Cons.prems have "mkdir_chain cs (w\<lparr>dirs := insert c (dirs w)\<rparr>) = (r, w0)"
        by simp
      from Cons.IH [OF this] show ?thesis by auto
    qed
  qed
qed

lemma mkdir_chain_Inr:
  assumes "mkdir_chain cs w = (Inr (), w0)"
  shows "set cs \<subseteq> dirs w0"
  using assms
proof (induction cs arbitrary: w)
  case Nil
  then show ?case by simp
next
  case (Cons c cs)
  show ?case
  proof (cases "c \<in> dirs w")
    case True
    with Cons.prems have rest: "mkdir_chain cs w = (Inr (), w0)" by simp
    from mkdir_chain_frame [OF rest] True have "c \<in> dirs w0" by auto
    with Cons.IH [OF rest] show ?thesis by simp
  next
    case False
    with Cons.prems have rest: "mkdir_chain cs (w\<lparr>dirs := insert c (dirs w)\<rparr>) = (Inr (), w0)"
      by (auto split: if_splits)
    from mkdir_chain_frame [OF rest] have "c \<in> dirs w0" by auto
    with Cons.IH [OF rest] show ?thesis by simp
  qed
qed

lemma makedirs_frame:
  assumes "makedirs p w = (r, w0)"
  shows "files w0 = files w" "now w0 = now w" "ticks w0 = ticks w"
    "denied w0 = denied w" "short_write w0 = short_write w" "dirs w \<subseteq> dirs w0"
  using mkdir_chain_frame [OF assms [unfolded makedirs_def]] by simp_all

lemma makedirs_Inr:
  assumes "makedirs p w = (Inr (), w0)"
  shows "p \<in> dirs w0" "set (ancestors p) \<subseteq> dirs w0"
  using mkdir_chain_Inr [OF assms [unfolded makedirs_def]] by simp_all

text \<open>A directory name without its trailing separators.\<close>

lemma strip_in_ancestors:
  assumes "d \<noteq> []" and "last d = CHR ''/''" and "\<not> list_all (\<lambda>c. c = CHR ''/'') d"
  shows "rev (dropWhile (\<lambda>c. c = CHR ''/'') (rev d)) \<in> set (ancestors d)"
proof -
  let ?P = "\<lambda>c. c = CHR ''/''"
  let ?s = "rev (dropWhile ?P (rev d))"
  let ?t = "rev (takeWhile ?P (rev d))"
  have d: "d = ?s @ ?t"
  proof -
    have "rev d = takeWhile ?P (rev d) @ dropWhile ?P (rev d)" by simp
    then have "rev (rev d) = rev (takeWhile ?P (rev d) @ dropWhile ?P (rev d))" by simp
    then show ?thesis by (simp only: rev_rev_ident rev_append)
  qed
  have s: "?s \<noteq> []"
  proof
    assume "?s = []"
    then have "dropWhile ?P (rev d) = []" by simp
    then have "\<forall>c\<in>set (rev d). c = CHR ''/''" by (simp add: dropWhile_eq_Nil_conv)
    with assms(3) show False by (simp add: list_all_iff)
  qed
  have t: "?t \<noteq> []"
  proof -
    from assms(1,2) have "hd (rev d) = CHR ''/''" by (simp add: hd_rev)
    with assms(1) have "takeWhile ?P (rev d) \<noteq> []" by (cases "rev d") auto
    then show ?thesis by simp
  qed
  have all: "\<forall>c\<in>set ?t. c = CHR ''/''"
    by (auto dest: set_takeWhileD)
  have t0: "?t ! 0 = CHR ''/''"
  proof -
    from t have "?t ! 0 \<in> set ?t" by (intro nth_mem) simp
    with all show ?thesis by blast
  qed
  let ?m = "length ?s"
  have m1: "1 \<le> ?m" using s by (simp add: Suc_le_eq)
  have m2: "?m < length d"
  proof -
    have "length d = length ?s + length ?t" by (subst d) (simp only: length_append)
    moreover have "0 < length ?t" using t by simp
    ultimately show ?thesis by linarith
  qed
  have tk: "take ?m d = ?s"
  proof -
    have "take ?m (?s @ ?t) = ?s" by simp
    with d show ?thesis by simp
  qed
  have nth: "d ! ?m = CHR ''/''"
  proof -
    have "(?s @ ?t) ! ?m = ?t ! 0" by (simp add: nth_append)
    with d t0 show ?thesis by simp
  qed
  have "?m \<in> set (filter (\<lambda>i. d ! i = CHR ''/'') [1..<length d])"
    using m1 m2 nth by simp
  then have "take ?m d \<in> set (ancestors d)"
    unfolding ancestors_def by (simp only: set_map) (rule imageI)
  with tk show ?thesis by simp
qed

lemma dirname_entry:
  assumes "CHR ''/'' \<notin> set base"
  shows "dirname (d @ sep_after d @ base) =
           (if d = [] \<or> list_all (\<lambda>c. c = CHR ''/'') d then d
            else rev (dropWhile (\<lambda>c. c = CHR ''/'') (rev d)))"
proof -
  let ?N = "\<lambda>c. c \<noteq> CHR ''/''"
  let ?P = "\<lambda>c. c = CHR ''/''"
  let ?h = "d @ sep_after d"
  have "dropWhile ?N (rev base @ rev ?h) = dropWhile ?N (rev ?h)"
    using assms by (intro dropWhile_append2) auto
  then have drop: "dropWhile ?N (rev (d @ sep_after d @ base)) = dropWhile ?N (rev ?h)"
    by simp
  have keep: "dropWhile ?N (rev ?h) = rev ?h"
  proof (cases "rev ?h")
    case Nil
    show ?thesis unfolding Nil by simp
  next
    case (Cons c cs)
    then have "last ?h = c" by (metis last_rev list.sel(1) rev_rev_ident hd_rev rev_is_Nil_conv list.distinct(1))
    moreover have "?h \<noteq> [] \<Longrightarrow> last ?h = CHR ''/''"
      by (simp add: sep_after_def endswith_sep_def)
    moreover from Cons have "?h \<noteq> []" by auto
    ultimately have "c = CHR ''/''" by simp
    show ?thesis unfolding Cons using \<open>c = CHR ''/''\<close> by simp
  qed
  have dn: "dirname (d @ sep_after d @ base) =
      (if ?h \<noteq> [] \<and> \<not> list_all ?P ?h then rev (dropWhile ?P (rev ?h)) else ?h)"
    by (simp only: dirname_def Let_def drop keep rev_rev_ident)
  show ?thesis
  proof (cases "d = []")
    case True
    then have "?h = []" by (simp add: sep_after_def)
    with dn True show ?thesis by simp
  next
    case ne: False
    show ?thesis
    proof (cases "last d = CHR ''/''")
      case True
      with ne have "?h = d" by (simp add: sep_after_def endswith_sep_def)
      with dn ne show ?thesis by simp
    next
      case False
      have sep: "sep_after d = ''/''"
        using ne False by (simp add: sep_after_def endswith_sep_def)
      have "last d \<in> set d" using ne by simp
      with False have ns: "\<not> list_all ?P d" unfolding list_all_iff by blast
      note dn
      also have "(if ?h \<noteq> [] \<and> \<not> list_all ?P ?h then rev (dropWhile ?P (rev ?h)) else ?h) =
          rev (dropWhile ?P (rev (d @ ''/'')))"
        unfolding sep using ns by simp
      also have "\<dots> = rev (dropWhile ?P (rev d))" by simp
      finally show ?thesis using ne ns by simp
    qed
  qed
qed

lemma makedirs_parent:
  assumes "makedirs d w = (Inr (), w0)"
  shows "parent_exists w0 (out_path d (strftime_full dt) f)"
proof -
  have base: "CHR ''/'' \<notin> set (strftime_full dt @ ''_'' @ safe_name f)"
    using slash_notin_strftime_full [of dt] safe_name_no_sep(1) [of f] by simp
  note dn = dirname_entry [OF base, of d]
  show ?thesis
  proof (cases "d = [] \<or> list_all (\<lambda>c. c = CHR ''/'') d")
    case True
    with dn show ?thesis by (auto simp: parent_exists_def out_path_eq)
  next
    case False
    then have ne: "d \<noteq> []" and ns: "\<not> list_all (\<lambda>c. c = CHR ''/'') d" by simp_all
    have "rev (dropWhile (\<lambda>c. c = CHR ''/'') (rev d)) \<in> dirs w0"
    proof (cases "last d = CHR ''/''")
      case True
      from strip_in_ancestors [OF ne True ns] makedirs_Inr(2) [OF assms] show ?thesis by blast
    next
      case nl: False
      with ne have "hd (rev d) \<noteq> CHR ''/''" by (simp add: hd_rev)
      moreover from ne have "rev d \<noteq> []" by simp
      ultimately have "dropWhile (\<lambda>c. c = CHR ''/'') (rev d) = rev d" by (cases "rev d") auto
      with makedirs_Inr(1) [OF assms] show ?thesis by simp
    qed
    with dn False show ?thesis by (simp add: parent_exists_def out_path_eq)
  qed
qed

lemma save_loop_files_frame:
  assumes "save_loop d fs saved w = (r, w')"
    and "q \<notin> set (planned d (now w) (ticks w) fs)"
  shows "files w' q = files w q"
  using assms
proof (induction fs arbitrary: saved w)
  case Nil
  then show ?case by simp
next
  case (Cons f fs)
  obtain r1 w1 where one: "save_one d f w = (r1, w1)" by (cases "save_one d f w")
  from Cons.prems(2) have q: "q \<noteq> out_path d (strftime_full (now w (ticks w))) f"
    and q': "q \<notin> set (planned d (now w) (Suc (ticks w)) fs)" by simp_all
  have f1: "files w1 q = files w q" by (rule save_one_frame(6) [OF one q])
  have fr: "now w1 = now w" "ticks w1 = Suc (ticks w)" using save_one_frame [OF one] by simp_all
  show ?case
  proof (cases r1)
    case (Inl e)
    with one Cons.prems(1) have "w' = w1" by simp
    with f1 show ?thesis by simp
  next
    case (Inr p)
    with one Cons.prems(1) have "save_loop d fs (saved @ [p]) w1 = (r, w')" by simp
    from Cons.IH [OF this] q' fr f1 show ?thesis by simp
  qed
qed

lemma save_files_cases:
  assumes "save_files cwd fs subdir w = (r, w')" and "fs \<noteq> []"
  shows "(\<exists>e. makedirs (path_join (UPLOAD_DIR cwd) subdir) w = (Inl e, w') \<and> r = Inl e) \<or>
         (\<exists>w0. makedirs (path_join (UPLOAD_DIR cwd) subdir) w = (Inr (), w0) \<and>
               save_loop (path_join (UPLOAD_DIR cwd) subdir) fs [] w0 = (r, w'))"
  using assms by (auto simp: save_files_def Let_def split: prod.splits sum.splits)

lemma save_files_files_frame:
  assumes "save_files cwd fs subdir w = (r, w')"
    and "q \<notin> set (planned (path_join (UPLOAD_DIR cwd) subdir) (now w) (ticks w) fs)"
  shows "files w' q = files w q"
proof (cases "fs = []")
  case True
  with assms(1) show ?thesis by (simp add: save_files_def)
next
  case False
  from save_files_cases [OF assms(1) False] show ?thesis
  proof (elim disjE exE conjE)
    fix e assume "makedirs (path_join (UPLOAD_DIR cwd) subdir) w = (Inl e, w')"
    from makedirs_frame(1) [OF this] show ?thesis by simp
  next
    fix w0 assume m: "makedirs (path_join (UPLOAD_DIR cwd) subdir) w = (Inr (), w0)"
      and l: "save_loop (path_join (UPLOAD_DIR cwd) subdir) fs [] w0 = (r, w')"
    note fr = makedirs_frame [OF m]
    from save_loop_files_frame [OF l] assms(2) fr show ?thesis by simp
  qed
qed

lemma save_files_Inr:
  assumes "save_files cwd fs subdir w = (Inr ps, w')"
  shows "ps = planned (path_join (UPLOAD_DIR cwd) subdir) (now w) (ticks w) fs"
    and "files w' = files w ++ map_of (rev (zip ps (map file_data fs)))"
proof -
  let ?d = "path_join (UPLOAD_DIR cwd) subdir"
  have "ps = planned ?d (now w) (ticks w) fs \<and>
        files w' = files w ++ map_of (rev (zip ps (map file_data fs)))"
  proof (cases "fs = []")
    case True
    with assms show ?thesis by (simp add: save_files_def)
  next
    case False
    from save_files_cases [OF assms False] obtain w0 where
      m: "makedirs ?d w = (Inr (), w0)" and l: "save_loop ?d fs [] w0 = (Inr ps, w')"
      by auto
    note fr = makedirs_frame [OF m]
    from save_loop_Inr(1,2) [OF l] fr show ?thesis by simp
  qed
  then show "ps = planned ?d (now w) (ticks w) fs"
    and "files w' = files w ++ map_of (rev (zip ps (map file_data fs)))" by simp_all
qed

lemma save_files_Inr_nth:
  assumes "save_files cwd fs subdir w = (Inr ps, w')"
  shows "length ps = length fs"
    and "i < length fs \<Longrightarrow>
         ps ! i = out_path (path_join (UPLOAD_DIR cwd) subdir) (strftime_full (now w (ticks w + i))) (fs ! i)"
  using save_files_Inr(1) [OF assms] by (simp_all add: length_planned planned_nth)

section \<open>Which write a path keeps, and when the loop succeeds\<close>

lemma fst_set_zip: "length ps = length ds \<Longrightarrow> fst ` set (zip ps ds) = set ps"
proof -
  assume len: "length ps = length ds"
  have "fst ` set (zip ps ds) = set (map fst (zip ps ds))" by (simp only: set_map)
  also have "\<dots> = set ps" using len by simp
  finally show ?thesis .
qed

lemma map_of_rev_zip_some:
  assumes "length ps = length ds" and "i < length ps"
  shows "map_of (rev (zip ps ds)) (ps ! i) \<noteq> None"
proof -
  have "ps ! i \<in> set ps" using assms(2) by simp
  then have "ps ! i \<in> fst ` set (rev (zip ps ds))"
    using assms(1) by (simp add: fst_set_zip)
  then show ?thesis by (simp add: map_of_eq_None_iff)
qed

lemma map_of_rev_zip_last:
  assumes "length ps = length ds" and "i < length ps"
    and "\<forall>j<length ps. i < j \<longrightarrow> ps ! j \<noteq> ps ! i"
  shows "map_of (rev (zip ps ds)) (ps ! i) = Some (ds ! i)"
  using assms
proof (induction ps arbitrary: ds i)
  case Nil
  then show ?case by simp
next
  case (Cons p ps)
  then obtain d ds' where ds: "ds = d # ds'" by (cases ds) auto
  with Cons.prems have len: "length ps = length ds'" by simp
  show ?case
  proof (cases i)
    case 0
    have "p \<notin> set ps"
    proof
      assume "p \<in> set ps"
      then obtain j where "j < length ps" "ps ! j = p" by (auto simp: in_set_conv_nth)
      with Cons.prems(3) 0 show False by (auto dest: spec [of _ "Suc j"])
    qed
    then have "map_of (rev (zip ps ds')) p = None"
      using len by (simp add: map_of_eq_None_iff fst_set_zip)
    with 0 ds show ?thesis by (simp add: map_add_def)
  next
    case (Suc k)
    with Cons.prems have k: "k < length ps" by simp
    have "\<forall>j<length ps. k < j \<longrightarrow> ps ! j \<noteq> ps ! k"
    proof (intro allI impI)
      fix j assume "j < length ps" "k < j"
      with Cons.prems(3) Suc show "ps ! j \<noteq> ps ! k" by (auto dest: spec [of _ "Suc j"])
    qed
    from Cons.IH [OF len k this] Suc ds show ?thesis by (simp add: map_add_def)
  qed
qed

lemma save_loop_writable:
  assumes "list_all2 (writable w) (planned d (now w) (ticks w) fs) (map file_data fs)"
    and "\<And>dt f. parent_exists w (out_path d (strftime_full dt) f)"
  shows "\<exists>w'. save_loop d fs saved w = (Inr (saved @ planned d (now w) (ticks w) fs), w')"
  using assms
proof (induction fs arbitrary: saved w)
  case Nil
  then show ?case by simp
next
  case (Cons f fs)
  let ?p = "out_path d (strftime_full (now w (ticks w))) f"
  let ?w1 = "w\<lparr>files := (files w)(?p \<mapsto> file_data f), ticks := Suc (ticks w)\<rparr>"
  from Cons.prems(1) have wr: "writable w ?p (file_data f)" by simp
  have one: "save_one d f w = (Inr ?p, ?w1)"
    by (rule save_one_writable [OF wr Cons.prems(2)])
  have fr: "writable ?w1 = writable w" by (simp add: writable_def fun_eq_iff)
  from Cons.prems(1)
  have 1: "list_all2 (writable ?w1) (planned d (now ?w1) (ticks ?w1) fs) (map file_data fs)"
    by (simp add: fr)
  have 2: "parent_exists ?w1 (out_path d (strftime_full dt) g)" for dt g
    using Cons.prems(2) [of dt g] by (simp add: parent_exists_def)
  from Cons.IH [OF 1 2, of "saved @ [?p]"] one show ?case by simp
qed

section \<open>Where a failing batch stops\<close>

lemma save_loop_append:
  "save_loop d (xs @ ys) saved w =
     (case save_loop d xs saved w of
        (Inl e, w') \<Rightarrow> (Inl e, w')
      | (Inr ps, w') \<Rightarrow> save_loop d ys ps w')"
  by (induction xs arbitrary: saved w) (auto split: prod.splits sum.splits)

lemma save_files_nonempty:
  assumes "fs \<noteq> []" and "makedirs (path_join (UPLOAD_DIR cwd) subdir) w = (Inr (), w0)"
  shows "save_files cwd fs subdir w = save_loop (path_join (UPLOAD_DIR cwd) subdir) fs [] w0"
  using assms by (simp add: save_files_def Let_def)

lemma raised_cong: "dirs w' = dirs w \<Longrightarrow> denied w' = denied w \<Longrightarrow> raised w' p = raised w p"
  by (simp add: raised_def)

lemma writable_cong:
  "dirs w' = dirs w \<Longrightarrow> denied w' = denied w \<Longrightarrow> short_write w' = short_write w \<Longrightarrow>
   writable w' p data = writable w p data"
  by (simp add: writable_def)

lemma save_loop_stops:
  assumes k: "k < length fs"
    and before: "\<forall>i<k. writable w0 (out_path d (strftime_full (now w0 (ticks w0 + i))) (fs ! i))
                          (file_data (fs ! i))"
    and fail: "\<not> writable w0 (out_path d (strftime_full (now w0 (ticks w0 + k))) (fs ! k))
                          (file_data (fs ! k))"
    and pe: "\<And>dt f. parent_exists w0 (out_path d (strftime_full dt) f)"
  shows "\<exists>wk w'.
           save_loop d (take k fs) [] w0 = (Inr (planned d (now w0) (ticks w0) (take k fs)), wk) \<and>
           save_one d (fs ! k) wk =
             (Inl (raised w0 (out_path d (strftime_full (now w0 (ticks w0 + k))) (fs ! k))), w') \<and>
           save_loop d fs [] w0 =
             (Inl (raised w0 (out_path d (strftime_full (now w0 (ticks w0 + k))) (fs ! k))), w')"
proof -
  let ?pk = "out_path d (strftime_full (now w0 (ticks w0 + k))) (fs ! k)"
  have lk: "length (take k fs) = k" using k by simp
  have "list_all2 (writable w0) (planned d (now w0) (ticks w0) (take k fs)) (map file_data (take k fs))"
    using before k by (simp add: list_all2_conv_all_nth length_planned planned_nth)
  from save_loop_writable [OF this pe, of "[]"] obtain wk where
    pre: "save_loop d (take k fs) [] w0 = (Inr (planned d (now w0) (ticks w0) (take k fs)), wk)"
    by auto
  from save_loop_frame [OF pre] have fr: "dirs wk = dirs w0" "denied wk = denied w0"
    "short_write wk = short_write w0" "now wk = now w0" by simp_all
  have tk: "ticks wk = ticks w0 + k" using save_loop_Inr(3) [OF pre] lk by simp
  have nw: "\<not> writable wk (out_path d (strftime_full (now wk (ticks wk))) (fs ! k)) (file_data (fs ! k))"
    using fail by (simp add: writable_cong [OF fr(1,2,3)] fr(4) tk)
  have pk: "parent_exists wk (out_path d (strftime_full (now wk (ticks wk))) (fs ! k))"
    using pe by (simp add: parent_exists_cong [OF fr(1)])
  from save_one_unwritable [OF nw pk] obtain w' where
    "save_one d (fs ! k) wk =
       (Inl (raised wk (out_path d (strftime_full (now wk (ticks wk))) (fs ! k))), w')" by blast
  then have one: "save_one d (fs ! k) wk = (Inl (raised w0 ?pk), w')"
    by (simp add: raised_cong [OF fr(1,2)] fr(4) tk)
  have "fs = take k fs @ fs ! k # drop (Suc k) fs"
    using k by (simp add: id_take_nth_drop [symmetric])
  then have "save_loop d fs [] w0 = save_loop d (take k fs @ fs ! k # drop (Suc k) fs) [] w0"
    by simp
  also have "\<dots> = (Inl (raised w0 ?pk), w')"
    by (simp add: save_loop_append pre one)
  finally have "save_loop d fs [] w0 = (Inl (raised w0 ?pk), w')" .
  with pre one show ?thesis by blast
qed

section \<open>Runs on the concrete inputs\<close>

lemma zpad_2: "zpad 2 n = [digit_char (n div 10), digit_char n]"
proof -
  have "zpad (Suc (Suc 0)) n = [digit_char (n div 10), digit_char n]" by simp
  then show ?thesis by (simp only: numeral_2_eq_2)
qed

lemma zpad_4: "zpad 4 n = zpad 2 (n div 100) @ zpad 2 n"
proof -
  have "zpad (Suc (Suc (Suc (Suc 0)))) n = zpad (Suc (Suc 0)) (n div 100) @ zpad (Suc (Suc 0)) n"
    by (simp add: div_mult2_eq [symmetric])
  moreover have "(4::nat) = Suc (Suc (Suc (Suc 0)))" "(2::nat) = Suc (Suc 0)" by simp_all
  ultimately show ?thesis by metis
qed

lemma zpad_6: "zpad 6 n = zpad 4 (n div 100) @ zpad 2 n"
proof -
  have "zpad (Suc (Suc (Suc (Suc (Suc (Suc 0)))))) n =
        zpad (Suc (Suc (Suc (Suc 0)))) (n div 100) @ zpad (Suc (Suc 0)) n"
    by (simp add: div_mult2_eq [symmetric])
  moreover have "(6::nat) = Suc (Suc (Suc (Suc (Suc (Suc 0)))))"
    "(4::nat) = Suc (Suc (Suc (Suc 0)))" "(2::nat) = Suc (Suc 0)" by simp_all
  ultimately show ?thesis by metis
qed

lemma strftime_full_example: "strftime_full example_time = ''20240307090501000042''"
  by (simp add: strftime_full_def example_time_def zpad_6 zpad_4 zpad_2 digit_char_def)

lemma strftime_full_ticking:
  "strftime_full (ticking_clock 0) = ''20240307090501000042''"
  "strftime_full (ticking_clock (Suc 0)) = ''20240307090501000043''"
  by (simp_all add: strftime_full_def ticking_clock_def example_time_def zpad_6 zpad_4 zpad_2 digit_char_def)

lemma dest_example: "path_join (UPLOAD_DIR ''/srv'') ''custom'' = ''/srv/uploads/custom''"
  by (simp add: UPLOAD_DIR_def path_join_def endswith_sep_def)

lemma ancestors_example: "ancestors ''/srv/uploads/custom'' = [''/srv'', ''/srv/uploads'']"
  by (simp add: ancestors_def)

lemma makedirs_example:
  "makedirs ''/srv/uploads/custom'' (example_world clk) =
     (Inr (), (example_world clk)\<lparr>dirs := {''/srv/uploads/custom'', ''/srv'', ''/srv/uploads''}\<rparr>)"
  "makedirs ''/srv/uploads/custom'' ((example_world clk)\<lparr>short_write := m\<rparr>) =
     (Inr (), (example_world clk)
        \<lparr>short_write := m, dirs := {''/srv/uploads/custom'', ''/srv'', ''/srv/uploads''}\<rparr>)"
  by (simp_all add: makedirs_def example_world_def ancestors_example)

lemma save_files_example:
  "save_files ''/srv'' (f # fs) ''custom'' (example_world clk) =
     save_loop ''/srv/uploads/custom'' (f # fs) []
       ((example_world clk)\<lparr>dirs := {''/srv/uploads/custom'', ''/srv'', ''/srv/uploads''}\<rparr>)"
  "save_files ''/srv'' (f # fs) ''custom'' ((example_world clk)\<lparr>short_write := m\<rparr>) =
     save_loop ''/srv/uploads/custom'' (f # fs) []
       ((example_world clk)
          \<lparr>short_write := m, dirs := {''/srv/uploads/custom'', ''/srv'', ''/srv/uploads''}\<rparr>)"
  by (simp_all add: save_files_def dest_example makedirs_example Let_def del: save_loop.simps)

lemma out_path_examples:
  "out_path ''/srv/uploads/custom'' ''20240307090501000042'' (photo data) =
     ''/srv/uploads/custom/20240307090501000042_a.png''"
  "out_path ''/srv/uploads/custom'' ''20240307090501000042'' nested =
     ''/srv/uploads/custom/20240307090501000042_.._x_y_z.png''"
  "out_path ''/srv/uploads/custom'' ''20240307090501000043'' unnamed =
     ''/srv/uploads/custom/20240307090501000043_file''"
  by (simp_all add: out_path_def path_join_def endswith_sep_def safe_name_def replace_def
        filename_or_file_def photo_def nested_def unnamed_def)

lemma dirname_examples:
  "dirname ''/srv/uploads/custom/20240307090501000042_a.png'' = ''/srv/uploads/custom''"
  "dirname ''/srv/uploads/custom/20240307090501000042_.._x_y_z.png'' = ''/srv/uploads/custom''"
  "dirname ''/srv/uploads/custom/20240307090501000043_file'' = ''/srv/uploads/custom''"
  by (simp_all add: dirname_def)

lemma file_data_examples:
  "file_data (photo data) = data" "file_data nested = [7]" "file_data unnamed = [9]"
  by (simp_all add: photo_def nested_def unnamed_def)

lemma save_one_short:
  assumes "parent_exists w (out_path d (strftime_full (now w (ticks w))) f)"
    and "out_path d (strftime_full (now w (ticks w))) f \<notin> dirs w"
    and "out_path d (strftime_full (now w (ticks w))) f \<notin> denied w"
    and "short_write w (out_path d (strftime_full (now w (ticks w))) f) = Some n"
    and "n < length (file_data f)"
  shows "save_one d f w =
           (Inl (NoSpaceError (out_path d (strftime_full (now w (ticks w))) f)),
            w\<lparr>files := (files w)(out_path d (strftime_full (now w (ticks w))) f \<mapsto>
                           take n (file_data f)),
              ticks := Suc (ticks w)\<rparr>)"
proof -
  let ?p = "out_path d (strftime_full (now w (ticks w))) f"
  let ?w1 = "w\<lparr>ticks := Suc (ticks w)\<rparr>"
  have "parent_exists ?w1 ?p" using assms(1) by (simp add: parent_exists_def)
  moreover have "?p \<notin> dirs ?w1" "?p \<notin> denied ?w1" using assms(2,3) by simp_all
  ultimately have o: "open_wb ?p ?w1 = (Inr (), ?w1\<lparr>files := (files ?w1)(?p \<mapsto> [])\<rparr>)"
    by (rule open_wb_ok)
  have wr: "write_bytes ?p (file_data f) (?w1\<lparr>files := (files ?w1)(?p \<mapsto> [])\<rparr>) =
      (Inl (NoSpaceError ?p),
       w\<lparr>files := (files w)(?p \<mapsto> take n (file_data f)), ticks := Suc (ticks w)\<rparr>)"
    using assms(4,5) by (simp add: write_bytes_def)
  from o wr show ?thesis
    by (simp add: save_one_def utcnow_def Let_def)
qed

lemmas run_simps = save_one_writable save_one_short writable_def parent_exists_def dirname_examples
  example_world_def stuck_clock_def
  strftime_full_example strftime_full_ticking out_path_examples file_data_examples

lemma run_stuck:
  "save_files ''/srv'' [photo [1], photo [2]] ''custom'' (example_world stuck_clock) =
     (Inr [''/srv/uploads/custom/20240307090501000042_a.png'',
           ''/srv/uploads/custom/20240307090501000042_a.png''],
      \<lparr>dirs = {''/srv/uploads/custom'', ''/srv'', ''/srv/uploads''},
       files = [''/srv/uploads/custom/20240307090501000042_a.png'' \<mapsto> [2]],
       denied = {}, short_write = map_of [], now = stuck_clock, ticks = 2\<rparr>)"
  unfolding save_files_example by (simp add: run_simps)

lemma run_ticking:
  "save_files ''/srv'' [nested, unnamed] ''custom'' (example_world ticking_clock) =
     (Inr [''/srv/uploads/custom/20240307090501000042_.._x_y_z.png'',
           ''/srv/uploads/custom/20240307090501000043_file''],
      \<lparr>dirs = {''/srv/uploads/custom'', ''/srv'', ''/srv/uploads''},
       files = [''/srv/uploads/custom/20240307090501000042_.._x_y_z.png'' \<mapsto> [7],
                ''/srv/uploads/custom/20240307090501000043_file'' \<mapsto> [9]],
       denied = {}, short_write = map_of [], now = ticking_clock, ticks = 2\<rparr>)"
  unfolding save_files_example by (simp add: run_simps)

lemma run_cramped:
  "save_files ''/srv'' [photo [1], photo [2, 3]] ''custom'' cramped_world =
     (Inl (NoSpaceError ''/srv/uploads/custom/20240307090501000042_a.png''),
      \<lparr>dirs = {''/srv/uploads/custom'', ''/srv'', ''/srv/uploads''},
       files = [''/srv/uploads/custom/20240307090501000042_a.png'' \<mapsto> [2]],
       denied = {},
       short_write = map_of [(''/srv/uploads/custom/20240307090501000042_a.png'', 1)],
       now = stuck_clock, ticks = 2\<rparr>)"
  unfolding cramped_world_def save_files_example by (simp add: run_simps)

lemma run_cramped_first:
  "save_files ''/srv'' [photo [1]] ''custom'' cramped_world =
     (Inr [''/srv/uploads/custom/20240307090501000042_a.png''],
      \<lparr>dirs = {''/srv/uploads/custom'', ''/srv'', ''/srv/uploads''},
       files = [''/srv/uploads/custom/20240307090501000042_a.png'' \<mapsto> [1]],
       denied = {},
       short_write = map_of [(''/srv/uploads/custom/20240307090501000042_a.png'', 1)],
       now = stuck_clock, ticks = 1\<rparr>)"
  unfolding cramped_world_def save_files_example by (simp add: run_simps)

lemma nth_path_full:
  "nth_path ''/srv'' ''custom'' full_world (nested # unnamed # fs) 0 =
     ''/srv/uploads/custom/20240307090501000042_.._x_y_z.png''"
  "nth_path ''/srv'' ''custom'' full_world (nested # unnamed # fs) (Suc 0) =
     ''/srv/uploads/custom/20240307090501000043_file''"
  by (simp_all add: nth_path_def dest_example full_world_def example_world_def
        strftime_full_ticking out_path_examples)

lemma example_world_fields:
  "now (example_world clk) = clk" "ticks (example_world clk) = 0"
  by (simp_all add: example_world_def)

section \<open>The diagnostics response as a map\<close>

lemma map_of_test_database:
  "map_of (test_database imp env) =
     (map_of (probe imp initial_response))
       (''database_url'' \<mapsto>
          JStr (if getenv_truthy env ''DATABASE_URL'' then check_mark @ '' Set''
                else cross_mark @ '' Not Set''),
        ''database_name'' \<mapsto>
          JStr (if getenv_truthy env ''DATABASE_NAME'' then check_mark @ '' Set''
                else cross_mark @ '' Not Set''))"
  by (simp add: test_database_def Let_def AList.update_conv')

section \<open>Properties of the handlers\<close>

text \<open>
  C4. For the empty list of upload items, \<^verbatim>\<open>_save_files\<close> returns the empty list and leaves
  the world as it was: no file is written, no directory is created (not even the
  destination directory), the clock is not read.
\<close>

theorem save_files_empty: "save_files cwd [] subdir w = (Inr [], w)"
  by (simp add: save_files_def)

text \<open>
  C7. A custom request without a reference file is answered with status 200, \<open>ok\<close> true
  and a \<open>saved_count\<close> of 0; the persister is not called, so the world is unchanged.
\<close>

theorem custom_request_no_reference:
  "custom_request description brand email None cwd w =
     (JSONResponse 200
        (JObj [(''ok'', JBool True), (''message'', JStr ''Pedido recebido''),
               (''data'', JObj
                  [(''description'', JStr description),
                   (''brand'', JStr brand),
                   (''email'', JStr email),
                   (''saved_count'', JInt 0)])]), w)"
  by (simp add: custom_request_def)

text \<open>
  C6. When each of the four file groups of a plan submission is absent or empty, the handler
  raises \<^verbatim>\<open>HTTPException(422, "Nenhum ficheiro enviado")\<close> and the world is unchanged: no
  file is persisted.
\<close>

theorem submit_plan_no_files:
  assumes "files_0 \<in> {Absent, Multiple []}" and "files_1 \<in> {Absent, Multiple []}"
    and "files_2 \<in> {Absent, Multiple []}" and "files_3 \<in> {Absent, Multiple []}"
  shows "submit_plan plan max_photos brand email products files_0 files_1 files_2 files_3 cwd w =
           (HTTPException 422 ''Nenhum ficheiro enviado'', w)"
  using assms by (auto simp: submit_plan_def flatten_uploads_def)

theorem submit_plan_no_files_witness:
  "submit_plan ''A'' 5 ''X'' ''a@b.com'' None Absent (Multiple []) Absent (Multiple []) ''/srv''
     (example_world stuck_clock) =
   (HTTPException 422 ''Nenhum ficheiro enviado'', example_world stuck_clock)"
  using submit_plan_no_files [of Absent "Multiple []" Absent "Multiple []"] by simp

section \<open>Properties of the diagnostics endpoint\<close>

text \<open>
  C8. When importing the database module raises \<^verbatim>\<open>ImportError\<close> and neither
  \<^verbatim>\<open>DATABASE_URL\<close> nor \<^verbatim>\<open>DATABASE_NAME\<close> is in the environment, the response has a
  \<open>database\<close> text that contains "Database module not found" and both \<open>database_url\<close>
  and \<open>database_name\<close> are the cross mark followed by " Not Set".
\<close>

theorem test_database_no_module:
  assumes "env ''DATABASE_URL'' = None" and "env ''DATABASE_NAME'' = None"
  shows "map_of (test_database ImportError env) ''database'' =
           Some (JStr (cross_mark @ '' Database module not found (run enable-database first)''))
       \<and> sublist ''Database module not found''
           (cross_mark @ '' Database module not found (run enable-database first)'')
       \<and> map_of (test_database ImportError env) ''database_url'' = Some (JStr (cross_mark @ '' Not Set''))
       \<and> map_of (test_database ImportError env) ''database_name'' = Some (JStr (cross_mark @ '' Not Set''))"
proof -
  have s: "sublist ''Database module not found''
           (cross_mark @ '' Database module not found (run enable-database first)'')"
    unfolding sublist_def
    by (rule exI [of _ "cross_mark @ '' ''"], rule exI [of _ "'' (run enable-database first)''"]) simp
  have d: "map_of (test_database ImportError env) ''database'' =
           Some (JStr (cross_mark @ '' Database module not found (run enable-database first)''))"
    by (simp add: map_of_test_database initial_response_def)
  have u: "map_of (test_database ImportError env) ''database_url'' = Some (JStr (cross_mark @ '' Not Set''))"
    using assms by (simp add: map_of_test_database getenv_truthy_def)
  have n: "map_of (test_database ImportError env) ''database_name'' = Some (JStr (cross_mark @ '' Not Set''))"
    using assms by (simp add: map_of_test_database getenv_truthy_def)
  from s d u n show ?thesis by blast
qed

theorem test_database_no_module_witness:
  "map_of (test_database ImportError (map_of [])) ''database'' =
           Some (JStr (cross_mark @ '' Database module not found (run enable-database first)''))
       \<and> map_of (test_database ImportError (map_of [])) ''database_url'' = Some (JStr (cross_mark @ '' Not Set''))
       \<and> map_of (test_database ImportError (map_of [])) ''database_name'' = Some (JStr (cross_mark @ '' Not Set''))"
  using test_database_no_module [of "map_of []"] by simp

text \<open>
  C10, as the program has it. Whatever the probe of the database did, \<open>database_url\<close> and
  \<open>database_name\<close> of the response are " Set" after a check mark or " Not Set" after a
  cross mark, decided by the environment alone: " Set" exactly when the variable has a
  non-empty value. A variable that is set to the empty string counts as not set.
\<close>

theorem test_database_env_fields:
  "map_of (test_database imp env) ''database_url'' =
     Some (JStr (if env ''DATABASE_URL'' \<in> {None, Some []} then cross_mark @ '' Not Set''
                 else check_mark @ '' Set''))
   \<and> map_of (test_database imp env) ''database_name'' =
     Some (JStr (if env ''DATABASE_NAME'' \<in> {None, Some []} then cross_mark @ '' Not Set''
                 else check_mark @ '' Set''))"
  by (auto simp: map_of_test_database getenv_truthy_def split: option.splits)

theorem test_database_env_fields_witness:
  "map_of (test_database (Imported (Some (Handle (Some (JStr ''shop'')) (Inr []))))
             (map_of [(''DATABASE_URL'', ''mongodb://db'')])) ''database_url''
     = Some (JStr (check_mark @ '' Set''))
   \<and> map_of (test_database (Imported (Some (Handle (Some (JStr ''shop'')) (Inr []))))
             (map_of [(''DATABASE_URL'', ''mongodb://db'')])) ''database_name''
     = Some (JStr (cross_mark @ '' Not Set''))"
  using test_database_env_fields
    [of "Imported (Some (Handle (Some (JStr ''shop'')) (Inr [])))"
        "map_of [(''DATABASE_URL'', ''mongodb://db'')]"]
  by simp

text \<open>
  C10, as stated, fails: with \<^verbatim>\<open>DATABASE_URL\<close> set to the empty string the variable is
  set, and \<open>database_url\<close> is " Not Set".
\<close>

theorem test_database_empty_variable:
  "map_of [(''DATABASE_URL'', '''')] ''DATABASE_URL'' = Some ''''
   \<and> map_of (test_database ImportError (map_of [(''DATABASE_URL'', '''')])) ''database_url''
       = Some (JStr (cross_mark @ '' Not Set''))
   \<and> cross_mark @ '' Not Set'' \<noteq> check_mark @ '' Set''"
  by (simp add: map_of_test_database getenv_truthy_def cross_mark_def check_mark_def)

section \<open>Properties of the upload persister\<close>

text \<open>
  C1, as the program has it. When the destination directory can be made and every output
  path can be opened and written in full, \<^verbatim>\<open>_save_files\<close> returns one path per item, in
  the order of the items; the \<open>i\<close>-th path is the one built from the \<open>i\<close>-th clock reading
  and the \<open>i\<close>-th item; each returned path names a file that exists; and the file holds
  the bytes of its item whenever no later item of the batch was given the same path.
\<close>

theorem save_files_round_trip:
  assumes "makedirs (path_join (UPLOAD_DIR cwd) subdir) w = (Inr (), w0)"
    and "\<forall>i<length fs.
           writable w0
             (out_path (path_join (UPLOAD_DIR cwd) subdir) (strftime_full (now w (ticks w + i))) (fs ! i))
             (file_data (fs ! i))"
  shows "\<exists>ps w'. save_files cwd fs subdir w = (Inr ps, w') \<and> length ps = length fs \<and>
           (\<forall>i<length fs.
              ps ! i = out_path (path_join (UPLOAD_DIR cwd) subdir)
                         (strftime_full (now w (ticks w + i))) (fs ! i) \<and>
              files w' (ps ! i) \<noteq> None \<and>
              ((\<forall>j<length fs. i < j \<longrightarrow> ps ! j \<noteq> ps ! i) \<longrightarrow>
                 files w' (ps ! i) = Some (file_data (fs ! i))))"
proof -
  let ?d = "path_join (UPLOAD_DIR cwd) subdir"
  note fr = makedirs_frame [OF assms(1)]
  have "list_all2 (writable w0) (planned ?d (now w0) (ticks w0) fs) (map file_data fs)"
    using assms(2) by (simp add: list_all2_conv_all_nth length_planned planned_nth fr)
  from save_loop_writable [OF this makedirs_parent [OF assms(1)], of "[]"] obtain w1 where
    loop: "save_loop ?d fs [] w0 = (Inr (planned ?d (now w0) (ticks w0) fs), w1)" by auto
  define ps where "ps = planned ?d (now w0) (ticks w0) fs"
  have "\<exists>w'. save_files cwd fs subdir w = (Inr ps, w')"
  proof (cases "fs = []")
    case True
    then show ?thesis by (simp add: save_files_def ps_def)
  next
    case False
    with loop assms(1) show ?thesis by (simp add: save_files_def Let_def ps_def)
  qed
  then obtain w' where run: "save_files cwd fs subdir w = (Inr ps, w')" by blast
  have len: "length ps = length fs" by (rule save_files_Inr_nth(1) [OF run])
  have fl: "files w' = files w ++ map_of (rev (zip ps (map file_data fs)))"
    by (rule save_files_Inr(2) [OF run])
  have "ps ! i = out_path ?d (strftime_full (now w (ticks w + i))) (fs ! i) \<and>
        files w' (ps ! i) \<noteq> None \<and>
        ((\<forall>j<length fs. i < j \<longrightarrow> ps ! j \<noteq> ps ! i) \<longrightarrow>
           files w' (ps ! i) = Some (file_data (fs ! i)))" if i: "i < length fs" for i
  proof (intro conjI impI)
    show "ps ! i = out_path ?d (strftime_full (now w (ticks w + i))) (fs ! i)"
      by (rule save_files_Inr_nth(2) [OF run i])
    have "map_of (rev (zip ps (map file_data fs))) (ps ! i) \<noteq> None"
      using len i by (intro map_of_rev_zip_some) simp_all
    then show "files w' (ps ! i) \<noteq> None" by (auto simp: fl map_add_def)
    assume "\<forall>j<length fs. i < j \<longrightarrow> ps ! j \<noteq> ps ! i"
    then have "map_of (rev (zip ps (map file_data fs))) (ps ! i) = Some (map file_data fs ! i)"
      using len i by (intro map_of_rev_zip_last) simp_all
    then show "files w' (ps ! i) = Some (file_data (fs ! i))"
      using i by (simp add: fl map_add_def)
  qed
  with run len show ?thesis by blast
qed

theorem save_files_round_trip_witness:
  "fst (save_files ''/srv'' [nested, unnamed] ''custom'' (example_world ticking_clock)) =
     Inr [''/srv/uploads/custom/20240307090501000042_.._x_y_z.png'',
          ''/srv/uploads/custom/20240307090501000043_file'']
   \<and> files (snd (save_files ''/srv'' [nested, unnamed] ''custom'' (example_world ticking_clock)))
        ''/srv/uploads/custom/20240307090501000042_.._x_y_z.png'' = Some (file_data nested)
   \<and> files (snd (save_files ''/srv'' [nested, unnamed] ''custom'' (example_world ticking_clock)))
        ''/srv/uploads/custom/20240307090501000043_file'' = Some (file_data unnamed)"
proof -
  let ?w = "example_world ticking_clock"
  let ?wd = "?w\<lparr>dirs := {''/srv/uploads/custom'', ''/srv'', ''/srv/uploads''}\<rparr>"
  let ?fs = "[nested, unnamed]"
  have m: "makedirs (path_join (UPLOAD_DIR ''/srv'') ''custom'') ?w = (Inr (), ?wd)"
    by (simp add: dest_example makedirs_example)
  have wr: "\<forall>i<length ?fs.
      writable ?wd
        (out_path (path_join (UPLOAD_DIR ''/srv'') ''custom'')
           (strftime_full (now ?w (ticks ?w + i))) (?fs ! i))
        (file_data (?fs ! i))"
    by (simp add: less_Suc_eq dest_example example_world_fields strftime_full_ticking
          out_path_examples writable_def example_world_def)
  from save_files_round_trip [OF m wr] obtain ps w' where
    run: "save_files ''/srv'' ?fs ''custom'' ?w = (Inr ps, w')" and len: "length ps = length ?fs"
    and all: "\<forall>i<length ?fs.
       ps ! i = out_path (path_join (UPLOAD_DIR ''/srv'') ''custom'')
                  (strftime_full (now ?w (ticks ?w + i))) (?fs ! i) \<and>
       files w' (ps ! i) \<noteq> None \<and>
       ((\<forall>j<length ?fs. i < j \<longrightarrow> ps ! j \<noteq> ps ! i) \<longrightarrow>
          files w' (ps ! i) = Some (file_data (?fs ! i)))"
    by blast
  from all [rule_format, of 0] have p0: "ps ! 0 = ''/srv/uploads/custom/20240307090501000042_.._x_y_z.png''"
    by (simp add: dest_example example_world_fields strftime_full_ticking out_path_examples)
  from all [rule_format, of 1] have p1: "ps ! 1 = ''/srv/uploads/custom/20240307090501000043_file''"
    by (simp add: dest_example example_world_fields strftime_full_ticking out_path_examples)
  from len p0 p1 have ps: "ps = [''/srv/uploads/custom/20240307090501000042_.._x_y_z.png'',
          ''/srv/uploads/custom/20240307090501000043_file'']"
    by (cases ps; cases "tl ps") auto
  have i0: "0 < length ?fs" and i1: "1 < length ?fs" by simp_all
  have d0: "\<forall>j<length ?fs. 0 < j \<longrightarrow> ps ! j \<noteq> ps ! 0"
    and d1: "\<forall>j<length ?fs. 1 < j \<longrightarrow> ps ! j \<noteq> ps ! 1"
    by (simp_all add: ps less_Suc_eq)
  from all [rule_format, OF i0, THEN conjunct2, THEN conjunct2] d0
  have "files w' (ps ! 0) = Some (file_data (?fs ! 0))" by blast
  then have f0: "files w' ''/srv/uploads/custom/20240307090501000042_.._x_y_z.png'' = Some (file_data nested)"
    by (simp add: ps)
  from all [rule_format, OF i1, THEN conjunct2, THEN conjunct2] d1
  have "files w' (ps ! 1) = Some (file_data (?fs ! 1))" by blast
  then have f1: "files w' ''/srv/uploads/custom/20240307090501000043_file'' = Some (file_data unnamed)"
    by (simp add: ps)
  from run ps f0 f1 show ?thesis by simp
qed

text \<open>
  C1, as stated, fails: two items with the same name whose timestamps coincide get the same
  path, and the file holds the bytes of the second; the first returned path does not lead
  to the bytes of the first item.
\<close>

theorem save_files_overwrite:
  "fst (save_files ''/srv'' [photo [1], photo [2]] ''custom'' (example_world stuck_clock)) =
     Inr [''/srv/uploads/custom/20240307090501000042_a.png'',
          ''/srv/uploads/custom/20240307090501000042_a.png'']
   \<and> files (snd (save_files ''/srv'' [photo [1], photo [2]] ''custom'' (example_world stuck_clock)))
        ''/srv/uploads/custom/20240307090501000042_a.png'' = Some [2]
   \<and> file_data ([photo [1], photo [2]] ! 0) = [1]
   \<and> Some [2] \<noteq> Some (file_data ([photo [1], photo [2]] ! 0))"
  by (simp add: run_stuck file_data_examples)

text \<open>
  C2. Whatever the client's file names are, every file that \<^verbatim>\<open>_save_files\<close> creates or
  changes, and every path it returns, is an entry of the destination directory itself:
  the destination, one separator, and a name without a separator. The name is the
  timestamp, an underscore, and the client's name with each slash and each backslash
  replaced by an underscore. The destination is the upload root, a separator and
  \<open>subdir\<close>, unless \<open>subdir\<close> is an absolute path (the callers pass \<open>custom\<close> and a name
  that starts with \<open>plan_\<close>).
\<close>

theorem save_files_no_nesting:
  assumes "save_files cwd fs subdir w = (r, w')"
  shows "(\<forall>p. files w' p \<noteq> files w p \<longrightarrow> directly_inside (path_join (UPLOAD_DIR cwd) subdir) p) \<and>
         (\<forall>ps. r = Inr ps \<longrightarrow>
            (\<forall>i<length fs.
               ps ! i = path_join (UPLOAD_DIR cwd) subdir @ sep_after (path_join (UPLOAD_DIR cwd) subdir)
                  @ strftime_full (now w (ticks w + i)) @ ''_''
                  @ map (\<lambda>c. if c = CHR ''/'' \<or> c = CHR 0x5C then CHR ''_'' else c)
                      (filename_or_file (fs ! i)) \<and>
               directly_inside (path_join (UPLOAD_DIR cwd) subdir) (ps ! i))) \<and>
         (\<not> startswith_sep subdir \<longrightarrow>
            path_join (UPLOAD_DIR cwd) subdir = UPLOAD_DIR cwd @ ''/'' @ subdir)"
proof (intro conjI allI impI)
  let ?d = "path_join (UPLOAD_DIR cwd) subdir"
  fix p assume "files w' p \<noteq> files w p"
  with save_files_files_frame [OF assms, of p]
  have "p \<in> set (planned ?d (now w) (ticks w) fs)" by blast
  then obtain i where "i < length fs" "p = planned ?d (now w) (ticks w) fs ! i"
    by (auto simp: in_set_conv_nth length_planned)
  then show "directly_inside ?d p"
    by (simp add: planned_nth directly_inside_out_path)
next
  let ?d = "path_join (UPLOAD_DIR cwd) subdir"
  fix ps i assume r: "r = Inr ps" and i: "i < length fs"
  from assms r have run: "save_files cwd fs subdir w = (Inr ps, w')" by simp
  note nth = save_files_Inr_nth(2) [OF run i]
  show "ps ! i = ?d @ sep_after ?d @ strftime_full (now w (ticks w + i)) @ ''_''
          @ map (\<lambda>c. if c = CHR ''/'' \<or> c = CHR 0x5C then CHR ''_'' else c) (filename_or_file (fs ! i))"
    unfolding nth by (simp only: out_path_eq safe_name_eq)
  show "directly_inside ?d (ps ! i)"
    unfolding nth by (rule directly_inside_out_path)
next
  assume "\<not> startswith_sep subdir"
  then show "path_join (UPLOAD_DIR cwd) subdir = UPLOAD_DIR cwd @ ''/'' @ subdir"
    by (rule dest_dir_relative)
qed

theorem save_files_no_nesting_witness:
  "projr (fst (save_files ''/srv'' [nested, unnamed] ''custom'' (example_world ticking_clock))) ! 0 =
     ''/srv/uploads/custom/20240307090501000042_.._x_y_z.png''
   \<and> directly_inside ''/srv/uploads/custom''
        (projr (fst (save_files ''/srv'' [nested, unnamed] ''custom'' (example_world ticking_clock))) ! 0)
   \<and> path_join (UPLOAD_DIR ''/srv'') ''custom'' = UPLOAD_DIR ''/srv'' @ ''/custom''"
proof -
  let ?run = "save_files ''/srv'' [nested, unnamed] ''custom'' (example_world ticking_clock)"
  have "?run = (fst ?run, snd ?run)" by simp
  then have pair: "save_files ''/srv'' [nested, unnamed] ''custom'' (example_world ticking_clock) =
      (fst ?run, snd ?run)" .
  note inst = save_files_no_nesting [OF pair]
  have r: "fst ?run = Inr (projr (fst ?run))" by (simp add: run_ticking)
  have i: "0 < length [nested, unnamed]" by simp
  have "directly_inside (path_join (UPLOAD_DIR ''/srv'') ''custom'') (projr (fst ?run) ! 0)"
    by (rule inst [THEN conjunct2, THEN conjunct1, rule_format, OF r i, THEN conjunct2])
  then have "directly_inside ''/srv/uploads/custom'' (projr (fst ?run) ! 0)"
    by (simp only: dest_example)
  moreover have "projr (fst ?run) ! 0 = ''/srv/uploads/custom/20240307090501000042_.._x_y_z.png''"
    by (simp add: run_ticking)
  moreover have "\<not> startswith_sep ''custom''" by simp
  from inst [THEN conjunct2, THEN conjunct2, rule_format, OF this]
  have "path_join (UPLOAD_DIR ''/srv'') ''custom'' = UPLOAD_DIR ''/srv'' @ ''/custom''" by simp
  ultimately show ?thesis by blast
qed

text \<open>
  C3, as the program has it. When the timestamps read for the items of a batch are pairwise
  distinct, the returned paths are pairwise distinct. Nothing in the program makes two
  readings of the clock differ.
\<close>

theorem save_files_distinct:
  assumes "save_files cwd fs subdir w = (Inr ps, w')"
    and "distinct (map (\<lambda>i. strftime_full (now w (ticks w + i))) [0..<length fs])"
  shows "distinct ps"
proof -
  have len: "length ps = length fs" by (rule save_files_Inr_nth(1) [OF assms(1)])
  have "ps ! i \<noteq> ps ! j" if "i < length ps" "j < length ps" "i \<noteq> j" for i j
  proof
    assume eq: "ps ! i = ps ! j"
    from that len have i: "i < length fs" and j: "j < length fs" by simp_all
    from eq have "strftime_full (now w (ticks w + i)) = strftime_full (now w (ticks w + j))"
      unfolding save_files_Inr_nth(2) [OF assms(1) i] save_files_Inr_nth(2) [OF assms(1) j]
      by (rule out_path_inject(1))
    moreover from assms(2) i j that(3)
    have "strftime_full (now w (ticks w + i)) \<noteq> strftime_full (now w (ticks w + j))"
      by (auto simp: distinct_conv_nth dest!: spec [of _ i] spec [of _ j])
    ultimately show False by simp
  qed
  then show ?thesis by (simp add: distinct_conv_nth)
qed

theorem save_files_distinct_witness:
  "distinct (projr (fst (save_files ''/srv'' [nested, unnamed] ''custom''
                           (example_world ticking_clock))))"
proof -
  have d: "distinct (map (\<lambda>i. strftime_full (now (example_world ticking_clock)
                (ticks (example_world ticking_clock) + i))) [0..<length [nested, unnamed]])"
    by (simp add: example_world_fields upt_rec [of 0] upt_rec [of "Suc 0"] strftime_full_ticking)
  from save_files_distinct [OF run_ticking d] show ?thesis by (simp add: run_ticking)
qed

text \<open>
  C3, as stated, fails: with two readings of the clock in the same microsecond, two items
  of the same name get the same output path.
\<close>

theorem save_files_collision:
  "fst (save_files ''/srv'' [photo [1], photo [2]] ''custom'' (example_world stuck_clock)) =
     Inr [''/srv/uploads/custom/20240307090501000042_a.png'',
          ''/srv/uploads/custom/20240307090501000042_a.png'']
   \<and> \<not> distinct (projr (fst (save_files ''/srv'' [photo [1], photo [2]] ''custom''
                             (example_world stuck_clock))))"
  by (simp add: run_stuck)

text \<open>
  C5, as the program has it. Let the destination directory be in place, let every item
  before position \<open>k\<close> of the batch be one whose output path can be opened and written in
  full, and let item \<open>k\<close> be one whose output path cannot: it is a directory, or access to
  it is refused, or the space runs out during the write. Then \<^verbatim>\<open>_save_files\<close> raises the
  error of item \<open>k\<close>, and when that error reaches the caller: the file of every earlier
  item still exists; it still holds the bytes of its item unless a later item, up to and
  including the failing one, has the same output path; no path other than those of the
  items up to \<open>k\<close> has changed; and the outcome, error and world, is the same whatever
  follows item \<open>k\<close> in the batch, so no later item is written.
\<close>

theorem save_files_failure:
  assumes mk: "makedirs (path_join (UPLOAD_DIR cwd) subdir) w = (Inr (), w0)"
    and k: "k < length fs"
    and before: "\<forall>i<k. writable w0 (nth_path cwd subdir w fs i) (file_data (fs ! i))"
    and fail: "\<not> writable w0 (nth_path cwd subdir w fs k) (file_data (fs ! k))"
  shows "\<exists>w'. save_files cwd fs subdir w = (Inl (raised w0 (nth_path cwd subdir w fs k)), w') \<and>
           (\<forall>i<k. files w' (nth_path cwd subdir w fs i) \<noteq> None) \<and>
           (\<forall>i<k. (\<forall>j\<le>k. i < j \<longrightarrow> nth_path cwd subdir w fs j \<noteq> nth_path cwd subdir w fs i) \<longrightarrow>
                  files w' (nth_path cwd subdir w fs i) = Some (file_data (fs ! i))) \<and>
           (\<forall>p. (\<forall>i\<le>k. p \<noteq> nth_path cwd subdir w fs i) \<longrightarrow> files w' p = files w p) \<and>
           (\<forall>rest. save_files cwd (take (Suc k) fs @ rest) subdir w =
                     (Inl (raised w0 (nth_path cwd subdir w fs k)), w'))"
proof -
  let ?d = "path_join (UPLOAD_DIR cwd) subdir"
  let ?P = "nth_path cwd subdir w fs"
  note fr = makedirs_frame [OF mk]
  note pe = makedirs_parent [OF mk]
  have P: "?P i = out_path ?d (strftime_full (now w0 (ticks w0 + i))) (fs ! i)" for i
    by (simp add: nth_path_def fr)
  have before': "\<forall>i<k. writable w0 (out_path ?d (strftime_full (now w0 (ticks w0 + i))) (fs ! i))
                          (file_data (fs ! i))"
    using before by (simp add: P)
  have fail': "\<not> writable w0 (out_path ?d (strftime_full (now w0 (ticks w0 + k))) (fs ! k))
                          (file_data (fs ! k))"
    using fail by (simp add: P)
  from save_loop_stops [OF k before' fail' pe] obtain wk w' where
    pre: "save_loop ?d (take k fs) [] w0 = (Inr (planned ?d (now w0) (ticks w0) (take k fs)), wk)"
    and one: "save_one ?d (fs ! k) wk = (Inl (raised w0 (?P k)), w')"
    and all: "save_loop ?d fs [] w0 = (Inl (raised w0 (?P k)), w')"
    by (auto simp: P)
  let ?ps = "planned ?d (now w0) (ticks w0) (take k fs)"
  let ?ds = "map file_data (take k fs)"
  have lk: "length (take k fs) = k" using k by simp
  have lps: "length ?ps = k" using lk by (simp only: length_planned)
  have ps: "?ps ! i = ?P i" if "i < k" for i
    using that k by (simp add: planned_nth P)
  have ds: "?ds ! i = file_data (fs ! i)" if "i < k" for i
    using that k by simp
  from save_loop_frame [OF pre] have nowk: "now wk = now w0" by simp
  have tk: "ticks wk = ticks w0 + k" using save_loop_Inr(3) [OF pre] lk by simp
  have pk: "out_path ?d (strftime_full (now wk (ticks wk))) (fs ! k) = ?P k"
    by (simp add: P nowk tk)
  have fwk: "files wk = files w0 ++ map_of (rev (zip ?ps ?ds))"
    using save_loop_Inr(2) [OF pre] by simp
  have ne: "fs \<noteq> []" using k by auto
  have run: "save_files cwd fs subdir w = (Inl (raised w0 (?P k)), w')"
    using save_files_nonempty [OF ne mk] all by simp
  have exist: "\<forall>i<k. files w' (?P i) \<noteq> None"
  proof (intro allI impI)
    fix i assume i: "i < k"
    have "map_of (rev (zip ?ps ?ds)) (?ps ! i) \<noteq> None"
      using i lps lk by (intro map_of_rev_zip_some) simp_all
    then have "files wk (?P i) \<noteq> None" using i by (auto simp: fwk ps map_add_def)
    then show "files w' (?P i) \<noteq> None" by (rule save_one_frame(7) [OF one])
  qed
  have content: "\<forall>i<k. (\<forall>j\<le>k. i < j \<longrightarrow> ?P j \<noteq> ?P i) \<longrightarrow>
                  files w' (?P i) = Some (file_data (fs ! i))"
  proof (intro allI impI)
    fix i assume i: "i < k" and later: "\<forall>j\<le>k. i < j \<longrightarrow> ?P j \<noteq> ?P i"
    from later i have "?P i \<noteq> ?P k" by auto
    then have "?P i \<noteq> out_path ?d (strftime_full (now wk (ticks wk))) (fs ! k)"
      by (simp only: pk) simp
    from save_one_frame(6) [OF one this] have 1: "files w' (?P i) = files wk (?P i)" .
    have "\<forall>j<length ?ps. i < j \<longrightarrow> ?ps ! j \<noteq> ?ps ! i"
      using later i by (simp add: lps ps)
    then have "map_of (rev (zip ?ps ?ds)) (?ps ! i) = Some (?ds ! i)"
      using i lps lk by (intro map_of_rev_zip_last) simp_all
    then have "files wk (?P i) = Some (file_data (fs ! i))"
      using i by (simp add: fwk ps ds map_add_def)
    with 1 show "files w' (?P i) = Some (file_data (fs ! i))" by simp
  qed
  have frame: "\<forall>p. (\<forall>i\<le>k. p \<noteq> ?P i) \<longrightarrow> files w' p = files w p"
  proof (intro allI impI)
    fix p assume other: "\<forall>i\<le>k. p \<noteq> ?P i"
    then have "p \<noteq> out_path ?d (strftime_full (now wk (ticks wk))) (fs ! k)"
      by (simp only: pk) simp
    from save_one_frame(6) [OF one this] have 1: "files w' p = files wk p" .
    have "p \<notin> set ?ps"
    proof
      assume "p \<in> set ?ps"
      then obtain i where i: "i < k" and p: "p = ?ps ! i" by (auto simp: in_set_conv_nth lps)
      from i have "i \<le> k" by simp
      with other have "p \<noteq> ?P i" by blast
      with p ps [OF i] show False by simp
    qed
    from save_loop_files_frame [OF pre this] have "files wk p = files w0 p" .
    with 1 fr(1) show "files w' p = files w p" by simp
  qed
  have cut: "\<forall>rest. save_files cwd (take (Suc k) fs @ rest) subdir w = (Inl (raised w0 (?P k)), w')"
  proof
    fix rest
    let ?fs = "take (Suc k) fs @ rest"
    have ne': "?fs \<noteq> []" using k by (cases fs) simp_all
    have split: "?fs = take k fs @ fs ! k # rest"
      using k by (simp add: take_Suc_conv_app_nth)
    have "save_loop ?d ?fs [] w0 = (Inl (raised w0 (?P k)), w')"
      unfolding split by (simp add: save_loop_append pre one)
    with save_files_nonempty [OF ne' mk] show "save_files cwd ?fs subdir w = (Inl (raised w0 (?P k)), w')"
      by simp
  qed
  from run exist content frame cut show ?thesis by blast
qed

theorem save_files_failure_witness:
  "fst (save_files ''/srv'' [nested, unnamed, photo [5]] ''custom'' full_world) =
     Inl (NoSpaceError ''/srv/uploads/custom/20240307090501000043_file'')
   \<and> files (snd (save_files ''/srv'' [nested, unnamed, photo [5]] ''custom'' full_world))
        ''/srv/uploads/custom/20240307090501000042_.._x_y_z.png'' = Some (file_data nested)
   \<and> files (snd (save_files ''/srv'' [nested, unnamed, photo [5]] ''custom'' full_world))
        ''/srv/uploads/custom/20240307090501000044_a.png'' = None"
proof -
  let ?fs = "[nested, unnamed, photo [5]]"
  let ?P0 = "''/srv/uploads/custom/20240307090501000042_.._x_y_z.png''"
  let ?P1 = "''/srv/uploads/custom/20240307090501000043_file''"
  let ?P2 = "''/srv/uploads/custom/20240307090501000044_a.png''"
  let ?wd = "(example_world ticking_clock)
      \<lparr>short_write := map_of [(?P1, 0)],
       dirs := {''/srv/uploads/custom'', ''/srv'', ''/srv/uploads''}\<rparr>"
  have mk: "makedirs (path_join (UPLOAD_DIR ''/srv'') ''custom'') full_world = (Inr (), ?wd)"
    by (simp add: dest_example full_world_def makedirs_example)
  have k: "Suc 0 < length ?fs" by simp
  have before: "\<forall>i<Suc 0. writable ?wd (nth_path ''/srv'' ''custom'' full_world ?fs i)
                    (file_data (?fs ! i))"
    by (simp add: nth_path_full writable_def example_world_def)
  have fail: "\<not> writable ?wd (nth_path ''/srv'' ''custom'' full_world ?fs (Suc 0))
                    (file_data (?fs ! Suc 0))"
    by (simp add: nth_path_full writable_def example_world_def file_data_examples)
  from save_files_failure [OF mk k before fail] obtain w' where
    run: "save_files ''/srv'' ?fs ''custom'' full_world =
            (Inl (raised ?wd (nth_path ''/srv'' ''custom'' full_world ?fs (Suc 0))), w')"
    and content: "\<forall>i<Suc 0.
        (\<forall>j\<le>Suc 0. i < j \<longrightarrow> nth_path ''/srv'' ''custom'' full_world ?fs j \<noteq>
                               nth_path ''/srv'' ''custom'' full_world ?fs i) \<longrightarrow>
        files w' (nth_path ''/srv'' ''custom'' full_world ?fs i) = Some (file_data (?fs ! i))"
    and frame: "\<forall>p. (\<forall>i\<le>Suc 0. p \<noteq> nth_path ''/srv'' ''custom'' full_world ?fs i) \<longrightarrow>
                  files w' p = files full_world p"
    by blast
  have e: "raised ?wd (nth_path ''/srv'' ''custom'' full_world ?fs (Suc 0)) = NoSpaceError ?P1"
    by (simp add: nth_path_full raised_def example_world_def)
  have a: "fst (save_files ''/srv'' ?fs ''custom'' full_world) = Inl (NoSpaceError ?P1)"
    using run e by simp
  have w': "snd (save_files ''/srv'' ?fs ''custom'' full_world) = w'"
    using run by simp
  have "\<forall>j\<le>Suc 0. 0 < j \<longrightarrow> nth_path ''/srv'' ''custom'' full_world ?fs j \<noteq>
                               nth_path ''/srv'' ''custom'' full_world ?fs 0"
    by (simp add: le_Suc_eq nth_path_full)
  with content [rule_format, of 0]
  have "files w' (nth_path ''/srv'' ''custom'' full_world ?fs 0) = Some (file_data (?fs ! 0))"
    by blast
  then have b: "files w' ?P0 = Some (file_data nested)" by (simp add: nth_path_full)
  have "\<forall>i\<le>Suc 0. ?P2 \<noteq> nth_path ''/srv'' ''custom'' full_world ?fs i"
    by (simp add: le_Suc_eq nth_path_full)
  with frame have "files w' ?P2 = files full_world ?P2" by blast
  then have c: "files w' ?P2 = None" by (simp add: full_world_def example_world_def)
  from a b c w' show ?thesis by simp
qed

text \<open>
  C5, as stated, fails: with two readings of the clock in the same microsecond, the failing
  item opens the path of the item before it, and the bytes written for that item are gone
  when the error is raised. Alone, the first photo is saved with its byte; followed by a
  second photo for which the space runs out after one byte, its file holds that byte of
  the second photo instead.
\<close>

theorem save_files_failure_overwrites:
  "fst (save_files ''/srv'' [photo [1]] ''custom'' cramped_world) =
     Inr [''/srv/uploads/custom/20240307090501000042_a.png'']
   \<and> files (snd (save_files ''/srv'' [photo [1]] ''custom'' cramped_world))
        ''/srv/uploads/custom/20240307090501000042_a.png'' = Some [1]
   \<and> fst (save_files ''/srv'' [photo [1], photo [2, 3]] ''custom'' cramped_world) =
     Inl (NoSpaceError ''/srv/uploads/custom/20240307090501000042_a.png'')
   \<and> files (snd (save_files ''/srv'' [photo [1], photo [2, 3]] ''custom'' cramped_world))
        ''/srv/uploads/custom/20240307090501000042_a.png'' = Some [2]
   \<and> Some [2] \<noteq> Some (file_data ([photo [1], photo [2, 3]] ! 0))"
  by (simp add: run_cramped run_cramped_first file_data_examples)



end
